theory Spec2Isabelle
  imports Complex_Main "HOL-Library.Multiset"
begin

section \<open>Solid Waste Assessment Tool: values\<close>

text \<open>
  The script computes on Python floats and numpy float arrays. A float is modelled as an
  exact real number or the not-a-number value: rounding and the two infinities are not
  represented, so every statement below is about the idealised arithmetic. Python's
  \<^verbatim>\<open>None\<close> is the \<open>None\<close> of an option type.
\<close>

datatype pyfloat = Num real | NaN

type_synonym pyval = "pyfloat option"

text \<open>
  The exceptions of the script, and \<open>OutOfBoundsError\<close>, the one the specification
  names for a box outside the raster.
\<close>

datatype error = TypeError | ValueError | KeyError | OutOfBoundsError

text \<open>Arithmetic and comparison of floats: not-a-number propagates and compares false.\<close>

fun fmul :: "pyfloat \<Rightarrow> pyfloat \<Rightarrow> pyfloat" where
  "fmul (Num a) (Num b) = Num (a * b)"
| "fmul _ _ = NaN"

text \<open>
  The only divisor in the script is the constant 1000; a zero divisor (infinity or
  not-a-number in numpy) is outside the idealisation and is given not-a-number.
\<close>

fun fdiv :: "pyfloat \<Rightarrow> pyfloat \<Rightarrow> pyfloat" where
  "fdiv (Num a) (Num b) = (if b = 0 then NaN else Num (a / b))"
| "fdiv _ _ = NaN"

fun fsub :: "pyfloat \<Rightarrow> pyfloat \<Rightarrow> pyfloat" where
  "fsub (Num a) (Num b) = Num (a - b)"
| "fsub _ _ = NaN"

fun flt :: "pyfloat \<Rightarrow> pyfloat \<Rightarrow> bool" where
  "flt (Num a) (Num b) = (a < b)"
| "flt _ _ = False"

section \<open>computeArray\<close>

type_synonym grid = "pyfloat list list"

text \<open>\<^verbatim>\<open>pop_array[(pop_array < 0)] = np.nan\<close>\<close>

definition mask_negative :: "grid \<Rightarrow> grid" where
  "mask_negative pop_array = map (map (\<lambda>p. if flt p (Num 0) then NaN else p)) pop_array"

text \<open>An array times, and divided by, a scalar (numpy broadcasting).\<close>

definition array_mul :: "grid \<Rightarrow> pyfloat \<Rightarrow> grid" where
  "array_mul a k = map (map (\<lambda>p. fmul p k)) a"

definition array_div :: "grid \<Rightarrow> pyfloat \<Rightarrow> grid" where
  "array_div a k = map (map (\<lambda>p. fdiv p k)) a"

text \<open>
  The arithmetic of \<^verbatim>\<open>computeArray\<close> on the window it has read: the masking
  assignment, then the three array operations, in the order of the source.
\<close>

definition mass_array :: "grid \<Rightarrow> pyfloat \<Rightarrow> grid" where
  "mass_array pop_array0 sw_ppd =
     (let pop_array = mask_negative pop_array0;
          sw_ppd_array = array_mul pop_array sw_ppd;
          sw_ppw_array = array_mul sw_ppd_array (Num 7);
          array = array_div sw_ppw_array (Num 1000)
      in array)"

text \<open>
  The raster source is a dataset of the rasterio library, which is not part of the
  repository. A dataset has an extent, a no-data value, the samples of its band inside
  a rectangle of its extent and the transform of a window. Boxes and windows are
  rectangles in the raster's own coordinates; \<open>'a\<close> is the type of affine transforms,
  which the script only passes on.
\<close>

record rect =
  minX :: real
  minY :: real
  maxX :: real
  maxY :: real

record 'a dataset =
  ds_extent :: rect
  ds_nodata :: pyval
  ds_samples :: "rect \<Rightarrow> grid"
  ds_transform :: "rect \<Rightarrow> 'a"

text \<open>
  Two boxes intersect when they have a point in common; the part of a box inside
  another; a box that lies inside another.
\<close>

definition intersects :: "rect \<Rightarrow> rect \<Rightarrow> bool" where
  "intersects a b \<longleftrightarrow>
     max (minX a) (minX b) \<le> min (maxX a) (maxX b) \<and>
     max (minY a) (minY b) \<le> min (maxY a) (maxY b)"

definition clip :: "rect \<Rightarrow> rect \<Rightarrow> rect" where
  "clip a b = \<lparr>minX = max (minX a) (minX b), minY = max (minY a) (minY b),
               maxX = min (maxX a) (maxX b), maxY = min (maxY a) (maxY b)\<rparr>"

definition inside :: "rect \<Rightarrow> rect \<Rightarrow> bool" where
  "inside a b \<longleftrightarrow>
     minX b \<le> minX a \<and> maxX a \<le> maxX b \<and> minY b \<le> minY a \<and> maxY a \<le> maxY b"

text \<open>
  \<^verbatim>\<open>dataset.window\<close> on the bounds of the box: the library computes the window from
  the bounds and the transform of the raster alone, with no test against the extent, so
  the window of a box is the box, also where it lies outside the raster. The bounds are
  taken in order, left before right and bottom before top, as those of
  \<^verbatim>\<open>total_bounds\<close> are.
\<close>

definition dataset_window :: "'a dataset \<Rightarrow> rect \<Rightarrow> rect" where
  "dataset_window dataset bbox = bbox"

text \<open>
  \<^verbatim>\<open>dataset.read(1, window=window)\<close>, which is not a boundless read: the library
  crops the window to the extent and returns the samples of what is left, an empty grid
  when nothing is left; it raises nothing for a window outside the raster.
  \<^verbatim>\<open>dataset.window_transform(window)\<close> is the transform of the window it is given,
  which is the window before the crop.
\<close>

definition dataset_read :: "'a dataset \<Rightarrow> rect \<Rightarrow> grid" where
  "dataset_read dataset window =
     (if intersects window (ds_extent dataset)
      then ds_samples dataset (clip window (ds_extent dataset))
      else [])"

definition dataset_window_transform :: "'a dataset \<Rightarrow> rect \<Rightarrow> 'a" where
  "dataset_window_transform dataset window = ds_transform dataset window"

text \<open>
  \<^verbatim>\<open>computeArray(fp_raster, bbox, sw_ppd)\<close>, on the opened raster. The source tests
  nothing about the box and the extent, raises nothing and handles nothing; the result
  type keeps the error side that the functions after it use.
\<close>

definition computeArray ::
  "'a dataset \<Rightarrow> rect \<Rightarrow> pyfloat \<Rightarrow> error + (grid \<times> 'a \<times> pyval)" where
  "computeArray dataset bbox sw_ppd =
     (let nodata = ds_nodata dataset;
          window = dataset_window dataset bbox;
          pop_array = dataset_read dataset window;
          affine = dataset_window_transform dataset window;
          array = mass_array pop_array sw_ppd
      in Inr (array, affine, nodata))"

section \<open>zonalStats\<close>

text \<open>
  A GeoDataFrame: its text fields and its numeric fields, each a column with one value per
  row, and the geometry column. The name fields of the script are text fields and the
  reported-collection field is a numeric field (section 6 of the specification). A
  geometry is kept as its rasterisation: given the affine transform of a grid, the cells
  \<open>(row, column)\<close> of the grid that the polygon overlaps, each with the fraction of the
  cell that is covered.
\<close>

type_synonym coverage = "((nat \<times> nat) \<times> real) list"

record 'a geodataframe =
  gdf_text :: "string \<rightharpoonup> string list"
  gdf_numeric :: "string \<rightharpoonup> pyfloat list"
  gdf_geometry :: "('a \<Rightarrow> coverage) list"

text \<open>
  One feature of the frame as zonal_stats sees it, and one feature as zonal_stats returns
  it with \<^verbatim>\<open>geojson_out=True\<close>: the text properties of the row, and the computed
  statistics by name.
\<close>

record 'a feature =
  properties :: "string \<rightharpoonup> string"
  geometry :: "'a \<Rightarrow> coverage"

record feature_dict =
  fd_properties :: "string \<rightharpoonup> string"
  fd_stats :: "string \<rightharpoonup> pyval"

definition row_properties :: "'a geodataframe \<Rightarrow> nat \<Rightarrow> (string \<rightharpoonup> string)" where
  "row_properties df i =
     (\<lambda>k. case gdf_text df k of
            None \<Rightarrow> None
          | Some col \<Rightarrow> if i < length col then Some (col ! i) else None)"

definition features :: "'a geodataframe \<Rightarrow> 'a feature list" where
  "features df =
     map (\<lambda>i. \<lparr>properties = row_properties df i, geometry = gdf_geometry df ! i\<rparr>)
       [0 ..< length (gdf_geometry df)]"

text \<open>
  Modelled from the spec: \<^verbatim>\<open>zonal_stats\<close> is the rasterstats library, which is not part
  of the repository; what follows is section 4.3 of the specification. The values a zone
  covers are those of the cells of the grid that its polygon overlaps, each with its
  coverage fraction.
\<close>

fun fadd :: "pyfloat \<Rightarrow> pyfloat \<Rightarrow> pyfloat" where
  "fadd (Num a) (Num b) = Num (a + b)"
| "fadd _ _ = NaN"

definition covered_values :: "grid \<Rightarrow> coverage \<Rightarrow> (real \<times> pyfloat) list" where
  "covered_values array cov =
     map (\<lambda>((r, c), w). (w, array ! r ! c))
       (filter (\<lambda>((r, c), w). r < length array \<and> c < length (array ! r)) cov)"

text \<open>
  Modelled from the spec: a cell is left out of the statistic when its value equals the
  no-data marker or is not-a-number.
\<close>

definition is_valid :: "pyval \<Rightarrow> pyfloat \<Rightarrow> bool" where
  "is_valid nodata v =
     (case v of
        NaN \<Rightarrow> False
      | Num x \<Rightarrow> (case nodata of Some (Num n) \<Rightarrow> x \<noteq> n | _ \<Rightarrow> True))"

definition valid_cells :: "grid \<Rightarrow> pyval \<Rightarrow> coverage \<Rightarrow> (real \<times> pyfloat) list" where
  "valid_cells array nodata cov =
     filter (\<lambda>(w, v). is_valid nodata v) (covered_values array cov)"

text \<open>
  Modelled from the spec: the statistic of a zone (the sum, the only statistic the script
  requests) adds up the valid covered values, each weighted by its coverage fraction; a
  zone with no covered valid cell has an undefined result, \<^verbatim>\<open>None\<close>.
\<close>

definition zone_sum :: "grid \<Rightarrow> pyval \<Rightarrow> coverage \<Rightarrow> pyval" where
  "zone_sum array nodata cov =
     (let valid = valid_cells array nodata cov
      in if valid = [] then None
         else Some (foldl fadd (Num 0) (map (\<lambda>(w, v). fmul (Num w) v) valid)))"

text \<open>
  Modelled from the spec: \<^verbatim>\<open>zonal_stats(vector, array, affine=affine, nodata=nodata,
  stats=stat_select, geojson_out=True)\<close> returns the features in the order of the zones,
  each with its properties and with its statistic under the name of the statistic.
\<close>

definition zonal_stats ::
  "'a feature list \<Rightarrow> grid \<Rightarrow> 'a \<Rightarrow> pyval \<Rightarrow> string \<Rightarrow> feature_dict list" where
  "zonal_stats vector array affine nodata stats =
     map (\<lambda>f. \<lparr>fd_properties = properties f,
               fd_stats = [stats \<mapsto> zone_sum array nodata (geometry f affine)]\<rparr>) vector"

text \<open>
  The loop of \<^verbatim>\<open>getNamesStats\<close> over the features returned: the two lists that the
  source appends to are passed in and returned. A missing key raises \<^verbatim>\<open>KeyError\<close>.
\<close>

fun getNamesStats_loop ::
  "feature_dict list \<Rightarrow> string \<Rightarrow> string \<Rightarrow> string list \<Rightarrow> pyval list
     \<Rightarrow> error + (string list \<times> pyval list)" where
  "getNamesStats_loop [] name_field stat_select feature_list stat_list =
     Inr (feature_list, stat_list)"
| "getNamesStats_loop (feature_dict # temp) name_field stat_select feature_list stat_list =
     (case fd_properties feature_dict name_field of
        None \<Rightarrow> Inl KeyError
      | Some feature_name \<Rightarrow>
          (case fd_stats feature_dict stat_select of
             None \<Rightarrow> Inl KeyError
           | Some feature_stat \<Rightarrow>
               getNamesStats_loop temp name_field stat_select
                 (feature_list @ [feature_name]) (stat_list @ [feature_stat])))"

definition getNamesStats ::
  "'a geodataframe \<Rightarrow> grid \<Rightarrow> 'a \<Rightarrow> pyval \<Rightarrow> string \<Rightarrow> string list \<Rightarrow> pyval list \<Rightarrow> string
     \<Rightarrow> error + (string list \<times> pyval list)" where
  "getNamesStats vector array affine nodata name_field feature_list stat_list stat_select =
     (let temp = zonal_stats (features vector) array affine nodata stat_select
      in getNamesStats_loop temp name_field stat_select feature_list stat_list)"

text \<open>
  \<^verbatim>\<open>zonalStats\<close>: both calls leave \<^verbatim>\<open>stat_select\<close> of \<^verbatim>\<open>getNamesStats\<close> at its
  default \<^verbatim>\<open>'sum'\<close>; the parameter of the same name of \<^verbatim>\<open>zonalStats\<close> is not used.
\<close>

definition zonalStats ::
  "'a geodataframe \<Rightarrow> 'a geodataframe \<Rightarrow> grid \<Rightarrow> 'a \<Rightarrow> pyval \<Rightarrow> string \<Rightarrow> string \<Rightarrow> string
     \<Rightarrow> error + (string list \<times> pyval list \<times> string list \<times> pyval list)" where
  "zonalStats municipal_filter service_areas array affine nodata stat_select
       mun_name_field provider_name_field =
     (case getNamesStats municipal_filter array affine nodata mun_name_field [] [] ''sum'' of
        Inl e \<Rightarrow> Inl e
      | Inr (mun_names, mun_stats) \<Rightarrow>
          (case getNamesStats service_areas array affine nodata provider_name_field [] [] ''sum'' of
             Inl e \<Rightarrow> Inl e
           | Inr (provider_names, provider_stats) \<Rightarrow>
               Inr (mun_names, mun_stats, provider_names, provider_stats)))"

section \<open>processStats\<close>

text \<open>\<^verbatim>\<open>i - j\<close> for a zonal statistic \<open>i\<close> and a reported total \<open>j\<close>.\<close>

fun py_sub :: "pyval \<Rightarrow> pyfloat \<Rightarrow> error + pyval" where
  "py_sub (Some a) b = Inr (Some (fsub a b))"
| "py_sub None b = Inl TypeError"

fun uncoll_loop :: "(pyval \<times> pyfloat) list \<Rightarrow> pyval list \<Rightarrow> error + pyval list" where
  "uncoll_loop [] provider_uncoll = Inr provider_uncoll"
| "uncoll_loop ((i, j) # zip_object) provider_uncoll =
     (case py_sub i j of
        Inl e \<Rightarrow> Inl e
      | Inr d \<Rightarrow> uncoll_loop zip_object (provider_uncoll @ [d]))"

text \<open>
  A Python dict keeps its keys in the order of their first insertion; storing under a key
  that is present replaces the value in place. \<open>py_dict\<close> is \<^verbatim>\<open>dict(pairs)\<close>, as
  the list of its items.
\<close>

fun dict_setitem :: "('k \<times> 'v) list \<Rightarrow> 'k \<Rightarrow> 'v \<Rightarrow> ('k \<times> 'v) list" where
  "dict_setitem [] k v = [(k, v)]"
| "dict_setitem ((k', v') # d) k v =
     (if k' = k then (k', v) # d else (k', v') # dict_setitem d k v)"

definition py_dict :: "('k \<times> 'v) list \<Rightarrow> ('k \<times> 'v) list" where
  "py_dict pairs = foldl (\<lambda>d (k, v). dict_setitem d k v) [] pairs"

text \<open>
  \<^verbatim>\<open>sorted(d.items(), key=lambda x: x[1], reverse=True)\<close>. The values are compared with
  \<^verbatim>\<open><\<close> only, which raises \<^verbatim>\<open>TypeError\<close> when one side is \<^verbatim>\<open>None\<close>. CPython
  reverses the list, sorts it stably in ascending order and reverses the result. The
  ascending sort is given as insertion of each item behind the items it is not less than;
  on values that \<^verbatim>\<open><\<close> orders totally every stable sort returns this list. On
  values with a not-a-number among them the list CPython returns depends on the
  comparisons its merge sort happens to make, and the order given here need not be that
  one: \<open>processStats\<close> raises in its printing loop for each such list, in any order.
\<close>

fun py_lt :: "pyval \<Rightarrow> pyval \<Rightarrow> error + bool" where
  "py_lt (Some a) (Some b) = Inr (flt a b)"
| "py_lt _ _ = Inl TypeError"

fun insert_asc :: "('k \<times> pyval) \<Rightarrow> ('k \<times> pyval) list \<Rightarrow> error + ('k \<times> pyval) list" where
  "insert_asc x [] = Inr [x]"
| "insert_asc x (y # ys) =
     (case py_lt (snd x) (snd y) of
        Inl e \<Rightarrow> Inl e
      | Inr True \<Rightarrow> Inr (x # y # ys)
      | Inr False \<Rightarrow>
          (case insert_asc x ys of Inl e \<Rightarrow> Inl e | Inr r \<Rightarrow> Inr (y # r)))"

fun sort_asc :: "('k \<times> pyval) list \<Rightarrow> ('k \<times> pyval) list \<Rightarrow> error + ('k \<times> pyval) list" where
  "sort_asc [] sorted_part = Inr sorted_part"
| "sort_asc (x # xs) sorted_part =
     (case insert_asc x sorted_part of
        Inl e \<Rightarrow> Inl e
      | Inr sorted_part' \<Rightarrow> sort_asc xs sorted_part')"

definition sorted_desc :: "('k \<times> pyval) list \<Rightarrow> error + ('k \<times> pyval) list" where
  "sorted_desc items =
     (case sort_asc (rev items) [] of Inl e \<Rightarrow> Inl e | Inr r \<Rightarrow> Inr (rev r))"

text \<open>
  The printing loops: only \<^verbatim>\<open>int(i[1])\<close> can fail there. It truncates towards zero,
  raises \<^verbatim>\<open>ValueError\<close> for not-a-number and \<^verbatim>\<open>TypeError\<close> for \<^verbatim>\<open>None\<close>. The
  text written is not modelled; the integers shown are.
\<close>

fun py_int :: "pyval \<Rightarrow> error + int" where
  "py_int None = Inl TypeError"
| "py_int (Some NaN) = Inl ValueError"
| "py_int (Some (Num x)) = Inr (if 0 \<le> x then \<lfloor>x\<rfloor> else \<lceil>x\<rceil>)"

fun print_items :: "('k \<times> pyval) list \<Rightarrow> error + int list" where
  "print_items [] = Inr []"
| "print_items (i # rest) =
     (case py_int (snd i) of
        Inl e \<Rightarrow> Inl e
      | Inr n \<Rightarrow> (case print_items rest of Inl e \<Rightarrow> Inl e | Inr ns \<Rightarrow> Inr (n # ns)))"

definition processStats ::
  "'a geodataframe \<Rightarrow> string list \<Rightarrow> pyval list \<Rightarrow> string list \<Rightarrow> pyval list \<Rightarrow> string
     \<Rightarrow> error + ((string \<times> pyval) list \<times> (string \<times> pyval) list)" where
  "processStats service_areas mun_names mun_stats provider_names provider_stats
       provider_coll_field =
     (case gdf_numeric service_areas provider_coll_field of
        None \<Rightarrow> Inl KeyError
      | Some provider_coll \<Rightarrow>
     (case uncoll_loop (zip provider_stats provider_coll) [] of
        Inl e \<Rightarrow> Inl e
      | Inr provider_uncoll \<Rightarrow>
     (let mun_dict = py_dict (zip mun_names mun_stats);
          provider_dict = py_dict (zip provider_names provider_uncoll)
      in
     (case sorted_desc mun_dict of
        Inl e \<Rightarrow> Inl e
      | Inr mun_dict_sorted \<Rightarrow>
     (case sorted_desc provider_dict of
        Inl e \<Rightarrow> Inl e
      | Inr provider_dict_sorted \<Rightarrow>
     (case print_items mun_dict_sorted of
        Inl e \<Rightarrow> Inl e
      | Inr _ \<Rightarrow>
     (case print_items provider_dict_sorted of
        Inl e \<Rightarrow> Inl e
      | Inr _ \<Rightarrow> Inr (mun_dict_sorted, provider_dict_sorted))))))))"

section \<open>main\<close>

text \<open>
  The computation of \<^verbatim>\<open>main\<close> between the loading of the vector data and the update of
  the frames, with the field names that \<^verbatim>\<open>main\<close> fixes.
\<close>

definition main_stats ::
  "'a dataset \<Rightarrow> 'a geodataframe \<Rightarrow> rect \<Rightarrow> 'a geodataframe \<Rightarrow> pyfloat
     \<Rightarrow> error + ((string \<times> pyval) list \<times> (string \<times> pyval) list)" where
  "main_stats dataset municipal_filter bbox service_areas sw_ppd =
     (let mun_name_field = ''ADM2_EN'';
          provider_name_field = ''psp_name'';
          provider_coll_field = ''total_coll'';
          stat_select = ''sum''
      in
     (case computeArray dataset bbox sw_ppd of
        Inl e \<Rightarrow> Inl e
      | Inr (array, affine, nodata) \<Rightarrow>
     (case zonalStats municipal_filter service_areas array affine nodata stat_select
             mun_name_field provider_name_field of
        Inl e \<Rightarrow> Inl e
      | Inr (mun_names, mun_stats, provider_names, provider_stats) \<Rightarrow>
          processStats service_areas mun_names mun_stats provider_names provider_stats
            provider_coll_field)))"

section \<open>Notions used in the statements\<close>

text \<open>A value that is a number: neither \<^verbatim>\<open>None\<close> nor not-a-number.\<close>

fun numeric :: "pyval \<Rightarrow> bool" where
  "numeric (Some (Num x)) = True"
| "numeric _ = False"

fun is_num :: "pyfloat \<Rightarrow> bool" where
  "is_num (Num x) = True"
| "is_num NaN = False"

fun val_le :: "pyval \<Rightarrow> pyval \<Rightarrow> bool" where
  "val_le (Some (Num a)) (Some (Num b)) = (a \<le> b)"
| "val_le _ _ = False"

text \<open>Items in ascending, and in descending, order of their values.\<close>

definition ascending :: "('k \<times> pyval) list \<Rightarrow> bool" where
  "ascending items = sorted_wrt (\<lambda>p q. val_le (snd p) (snd q)) items"

definition descending :: "('k \<times> pyval) list \<Rightarrow> bool" where
  "descending items = sorted_wrt (\<lambda>p q. val_le (snd q) (snd p)) items"

text \<open>
  The pairs of a list that are the last with their name: the pair at position \<open>i\<close>
  such that no later pair has the same name.
\<close>

definition last_occurrences :: "('k \<times> 'v) list \<Rightarrow> ('k \<times> 'v) set" where
  "last_occurrences pairs =
     {(n, v). \<exists>i<length pairs. pairs ! i = (n, v) \<and> (\<forall>j<length pairs. i < j \<longrightarrow> fst (pairs ! j) \<noteq> n)}"

text \<open>The items of a ranking with every value doubled (\<^verbatim>\<open>None\<close> stays \<^verbatim>\<open>None\<close>).\<close>

definition scale_items :: "('k \<times> pyval) list \<Rightarrow> ('k \<times> pyval) list" where
  "scale_items items = map (\<lambda>(n, v). (n, map_option (fmul (Num 2)) v)) items"

text \<open>A no-data marker that no mass of a positive rate can equal, unless both are zero.\<close>

fun nodata_not_positive :: "pyval \<Rightarrow> bool" where
  "nodata_not_positive (Some (Num n)) = (n \<le> 0)"
| "nodata_not_positive _ = True"

section \<open>Properties of computeArray\<close>

lemma mass_array_map:
  "mass_array pop sw_ppd =
     map (map (\<lambda>p. fdiv (fmul (fmul (if flt p (Num 0) then NaN else p) sw_ppd) (Num 7)) (Num 1000))) pop"
  by (simp add: mass_array_def mask_negative_def array_mul_def array_div_def comp_def)

lemma mass_cell_Num:
  "fdiv (fmul (fmul (if flt p (Num 0) then NaN else p) (Num r)) (Num 7)) (Num 1000) =
     (case p of NaN \<Rightarrow> NaN | Num x \<Rightarrow> if x < 0 then NaN else Num (x * r * 7 / 1000))"
  by (cases p) simp_all

text \<open>
  C1. With a numeric per-capita rate \<open>r\<close>, the mass grid has the shape of the population
  grid, and each of its cells is not-a-number where the population is negative (or already
  not-a-number) and \<open>population * r * 7 / 1000\<close> otherwise: the negative no-data values
  are replaced before the first multiplication, so none of them is ever multiplied.
\<close>

theorem mass_array_cells:
  assumes "i < length pop" and "j < length (pop ! i)"
  shows "length (mass_array pop (Num r)) = length pop
    \<and> length (mass_array pop (Num r) ! i) = length (pop ! i)
    \<and> mass_array pop (Num r) ! i ! j =
        (case pop ! i ! j of
           NaN \<Rightarrow> NaN
         | Num x \<Rightarrow> if x < 0 then NaN else Num (x * r * 7 / 1000))"
  using assms by (simp add: mass_array_map mass_cell_Num)

theorem mass_array_cells_witness:
  "mass_array [[Num 1000, Num (-99999)], [NaN, Num 0]] (Num (1/2)) ! 0 ! 1 = NaN
   \<and> mass_array [[Num 1000, Num (-99999)], [NaN, Num 0]] (Num (1/2)) ! 0 ! 0 = Num (7/2)"
  using mass_array_cells [of 0 "[[Num 1000, Num (-99999)], [NaN, Num 0]]" 1 "1/2"]
        mass_array_cells [of 0 "[[Num 1000, Num (-99999)], [NaN, Num 0]]" 0 "1/2"]
  by simp

section \<open>Properties of processStats\<close>

lemma numericE: "numeric v \<Longrightarrow> (\<And>x. v = Some (Num x) \<Longrightarrow> P) \<Longrightarrow> P"
  by (cases v rule: numeric.cases) auto

lemma insert_asc_numeric:
  assumes "numeric (snd x)" and "\<forall>y\<in>set ys. numeric (snd y)" and "ascending ys"
  shows "\<exists>r. insert_asc x ys = Inr r \<and> mset r = add_mset x (mset ys) \<and> ascending r
    \<and> (\<forall>v. filter (\<lambda>p. snd p = v) r = filter (\<lambda>p. snd p = v) ys @ (if snd x = v then [x] else []))"
  using assms
proof (induction ys)
  case Nil
  then show ?case by (auto simp: ascending_def)
next
  case (Cons y ys)
  obtain a where a: "snd x = Some (Num a)" using Cons.prems(1) by (auto elim: numericE)
  obtain b where b: "snd y = Some (Num b)" using Cons.prems(2) by (auto elim: numericE)
  have asc: "ascending ys" using Cons.prems(3) by (simp add: ascending_def)
  show ?case
  proof (cases "a < b")
    case True
    have all: "\<forall>q\<in>set (y # ys). val_le (snd x) (snd q) \<and> snd q \<noteq> snd x"
    proof
      fix q assume q: "q \<in> set (y # ys)"
      then have "numeric (snd q)" using Cons.prems(2) by auto
      then obtain c where c: "snd q = Some (Num c)" by (auto elim: numericE)
      have "b \<le> c" using q Cons.prems(3) b c by (auto simp: ascending_def)
      then show "val_le (snd x) (snd q) \<and> snd q \<noteq> snd x" using True a c by auto
    qed
    then have "filter (\<lambda>p. snd p = snd x) (y # ys) = []"
      by (auto simp: filter_empty_conv)
    then show ?thesis using True a b all Cons.prems(3)
      by (auto simp: ascending_def)
  next
    case False
    from Cons.IH [OF Cons.prems(1) _ asc] Cons.prems(2)
    obtain r where r: "insert_asc x ys = Inr r" "mset r = add_mset x (mset ys)" "ascending r"
      "\<forall>v. filter (\<lambda>p. snd p = v) r = filter (\<lambda>p. snd p = v) ys @ (if snd x = v then [x] else [])"
      by auto
    have "set r = insert x (set ys)" using r(2) by (metis set_mset_add_mset_insert set_mset_mset)
    then have "ascending (y # r)" using r(3) Cons.prems(3) False a b
      by (auto simp: ascending_def)
    then show ?thesis using False a b r by auto
  qed
qed

lemma sort_asc_numeric:
  assumes "\<forall>y\<in>set xs. numeric (snd y)" and "\<forall>y\<in>set acc. numeric (snd y)" and "ascending acc"
  shows "\<exists>r. sort_asc xs acc = Inr r \<and> mset r = mset xs + mset acc \<and> ascending r
    \<and> (\<forall>v. filter (\<lambda>p. snd p = v) r = filter (\<lambda>p. snd p = v) acc @ filter (\<lambda>p. snd p = v) xs)"
  using assms
proof (induction xs arbitrary: acc)
  case Nil
  then show ?case by simp
next
  case (Cons x xs)
  from insert_asc_numeric [of x acc] Cons.prems
  obtain r where r: "insert_asc x acc = Inr r" "mset r = add_mset x (mset acc)" "ascending r"
      "\<forall>v. filter (\<lambda>p. snd p = v) r = filter (\<lambda>p. snd p = v) acc @ (if snd x = v then [x] else [])"
    by auto
  have "set r = insert x (set acc)" using r(2) by (metis set_mset_add_mset_insert set_mset_mset)
  then have "\<forall>y\<in>set r. numeric (snd y)" using Cons.prems by auto
  from Cons.IH [OF _ this r(3)] Cons.prems(1)
  obtain r' where r': "sort_asc xs r = Inr r'" "mset r' = mset xs + mset r" "ascending r'"
     "\<forall>v. filter (\<lambda>p. snd p = v) r' = filter (\<lambda>p. snd p = v) r @ filter (\<lambda>p. snd p = v) xs"
    by auto
  show ?case using r r' by auto
qed

lemma sorted_desc_numeric:
  assumes "\<forall>p\<in>set items. numeric (snd p)"
  shows "\<exists>r. sorted_desc items = Inr r \<and> mset r = mset items \<and> descending r
    \<and> (\<forall>v. filter (\<lambda>p. snd p = v) r = filter (\<lambda>p. snd p = v) items)"
proof -
  from sort_asc_numeric [of "rev items" "[]"] assms
  obtain r where r: "sort_asc (rev items) [] = Inr r" "mset r = mset (rev items)" "ascending r"
     "\<forall>v. filter (\<lambda>p. snd p = v) r = filter (\<lambda>p. snd p = v) (rev items)"
    by (auto simp: ascending_def)
  have "descending (rev r)" using r(3) by (simp add: descending_def ascending_def sorted_wrt_rev)
  moreover have "\<forall>v. filter (\<lambda>p. snd p = v) (rev r) = filter (\<lambda>p. snd p = v) items"
    using r(4) by (simp add: rev_filter [symmetric])
  ultimately show ?thesis using r(1,2) by (simp add: sorted_desc_def)
qed


lemma fst_dict_setitem:
  "map fst (dict_setitem d k v) = (if k \<in> fst ` set d then map fst d else map fst d @ [k])"
  by (induction d k v rule: dict_setitem.induct) auto

lemma map_of_dict_setitem: "map_of (dict_setitem d k v) = (map_of d)(k \<mapsto> v)"
  by (induction d k v rule: dict_setitem.induct) (auto simp: fun_eq_iff)

lemma distinct_dict_setitem:
  "distinct (map fst d) \<Longrightarrow> distinct (map fst (dict_setitem d k v))"
  by (simp add: fst_dict_setitem)

lemma set_dict_setitem: "set (dict_setitem d k v) \<subseteq> insert (k, v) (set d)"
  by (induction d k v rule: dict_setitem.induct) auto

lemma dict_setitem_fresh: "k \<notin> fst ` set d \<Longrightarrow> dict_setitem d k v = d @ [(k, v)]"
  by (induction d k v rule: dict_setitem.induct) auto

lemma foldl_setitem_props:
  "distinct (map fst d) \<Longrightarrow>
     distinct (map fst (foldl (\<lambda>d (k, v). dict_setitem d k v) d pairs))
   \<and> map_of (foldl (\<lambda>d (k, v). dict_setitem d k v) d pairs) = map_of d ++ map_of (rev pairs)
   \<and> set (map fst (foldl (\<lambda>d (k, v). dict_setitem d k v) d pairs)) = fst ` set d \<union> fst ` set pairs
   \<and> set (foldl (\<lambda>d (k, v). dict_setitem d k v) d pairs) \<subseteq> set d \<union> set pairs"
proof (induction pairs arbitrary: d)
  case Nil
  then show ?case by simp
next
  case (Cons p pairs)
  obtain k v where p: "p = (k, v)" by (cases p)
  have d: "distinct (map fst (dict_setitem d k v))" using Cons.prems by (rule distinct_dict_setitem)
  note IH = Cons.IH [OF d]
  have 1: "map_of (dict_setitem d k v) ++ map_of (rev pairs) = map_of d ++ map_of (rev (p # pairs))"
    by (simp add: map_of_dict_setitem p fun_eq_iff map_add_def split: option.splits)
  have 2: "fst ` set (dict_setitem d k v) = insert k (fst ` set d)"
    by (induction d k v rule: dict_setitem.induct) auto
  have 3: "set (dict_setitem d k v) \<subseteq> insert (k, v) (set d)" by (rule set_dict_setitem)
  show ?case using IH 1 2 3 by (auto simp: p)
qed

lemma py_dict_props:
  "distinct (map fst (py_dict pairs))"
  "map_of (py_dict pairs) = map_of (rev pairs)"
  "set (map fst (py_dict pairs)) = fst ` set pairs"
  "set (py_dict pairs) \<subseteq> set pairs"
  using foldl_setitem_props [of "[]" pairs] by (simp_all add: py_dict_def)

lemma foldl_setitem_distinct:
  "distinct (map fst d @ map fst pairs) \<Longrightarrow>
     foldl (\<lambda>d (k, v). dict_setitem d k v) d pairs = d @ pairs"
proof (induction pairs arbitrary: d)
  case Nil
  then show ?case by simp
next
  case (Cons p pairs)
  obtain k v where p: "p = (k, v)" by (cases p)
  have "dict_setitem d k v = d @ [(k, v)]" using Cons.prems p by (intro dict_setitem_fresh) auto
  moreover have "distinct (map fst (d @ [(k, v)]) @ map fst pairs)" using Cons.prems p by auto
  ultimately show ?case using Cons.IH [of "d @ [(k, v)]"] p by simp
qed

lemma py_dict_distinct: "distinct (map fst pairs) \<Longrightarrow> py_dict pairs = pairs"
  using foldl_setitem_distinct [of "[]" pairs] by (simp add: py_dict_def)

lemma uncoll_loop_props:
  assumes "\<forall>z\<in>set zs. fst z \<noteq> None"
  shows "\<exists>us. uncoll_loop zs acc = Inr (acc @ us) \<and> length us = length zs
     \<and> (\<forall>k<length zs. py_sub (fst (zs ! k)) (snd (zs ! k)) = Inr (us ! k))"
  using assms
proof (induction zs arbitrary: acc)
  case Nil
  then show ?case by simp
next
  case (Cons z zs)
  obtain a j where z: "z = (Some a, j)" using Cons.prems by (cases z) auto
  from Cons.IH [of "acc @ [Some (fsub a j)]"] Cons.prems
  obtain us where us: "uncoll_loop zs (acc @ [Some (fsub a j)]) = Inr (acc @ [Some (fsub a j)] @ us)"
     "length us = length zs" "\<forall>k<length zs. py_sub (fst (zs ! k)) (snd (zs ! k)) = Inr (us ! k)"
    by auto
  show ?case
  proof (intro exI [of _ "Some (fsub a j) # us"] conjI allI impI)
    fix k assume "k < length (z # zs)"
    then show "py_sub (fst ((z # zs) ! k)) (snd ((z # zs) ! k)) = Inr ((Some (fsub a j) # us) ! k)"
      using us(3) z by (cases k) auto
  qed (use us z in auto)
qed

lemma uncoll_loop_None:
  assumes "\<exists>z\<in>set zs. fst z = None"
  shows "uncoll_loop zs acc = Inl TypeError"
  using assms
proof (induction zs arbitrary: acc)
  case Nil
  then show ?case by simp
next
  case (Cons z zs)
  obtain i j where z: "z = (i, j)" by (cases z)
  show ?case
  proof (cases i)
    case None
    then show ?thesis using z by simp
  next
    case (Some a)
    then have "\<exists>z\<in>set zs. fst z = None" using Cons.prems z by auto
    then show ?thesis using Cons.IH z Some by simp
  qed
qed

lemma print_items_numeric:
  "\<forall>p\<in>set xs. numeric (snd p) \<Longrightarrow> \<exists>ns. print_items xs = Inr ns"
proof (induction xs)
  case Nil
  then show ?case by simp
next
  case (Cons p xs)
  then obtain x where "snd p = Some (Num x)" by (auto elim: numericE)
  then show ?case using Cons by auto
qed

lemma uncoll_numeric:
  assumes "\<forall>z\<in>set zs. numeric (fst z) \<and> is_num (snd z)"
  shows "\<exists>us. uncoll_loop zs [] = Inr us \<and> length us = length zs
     \<and> (\<forall>k<length zs. py_sub (fst (zs ! k)) (snd (zs ! k)) = Inr (us ! k))
     \<and> (\<forall>u\<in>set us. numeric u)"
proof -
  have "\<forall>z\<in>set zs. fst z \<noteq> None" using assms by (fastforce elim: numericE)
  from uncoll_loop_props [OF this, of "[]"]
  obtain us where us: "uncoll_loop zs [] = Inr us" "length us = length zs"
     "\<forall>k<length zs. py_sub (fst (zs ! k)) (snd (zs ! k)) = Inr (us ! k)" by auto
  have "\<forall>u\<in>set us. numeric u"
  proof
    fix u assume "u \<in> set us"
    then obtain k where k: "k < length us" "us ! k = u" by (auto simp: in_set_conv_nth)
    then have "zs ! k \<in> set zs" using us(2) by simp
    then have "numeric (fst (zs ! k))" "is_num (snd (zs ! k))" using assms by auto
    then obtain g c where gc: "fst (zs ! k) = Some (Num g)" "snd (zs ! k) = Num c"
      by (cases "snd (zs ! k)") (auto elim: numericE)
    have "py_sub (fst (zs ! k)) (snd (zs ! k)) = Inr (us ! k)" using us(3) k(1) us(2) by simp
    then show "numeric u" using gc k(2) by auto
  qed
  then show ?thesis using us by auto
qed

lemma sorted_print_ok:
  assumes "\<forall>p\<in>set pairs. numeric (snd p)"
  shows "\<exists>r ns. sorted_desc (py_dict pairs) = Inr r \<and> print_items r = Inr ns
     \<and> mset r = mset (py_dict pairs)"
proof -
  have num: "\<forall>p\<in>set (py_dict pairs). numeric (snd p)"
    using assms py_dict_props(4) [of pairs] by auto
  from sorted_desc_numeric [OF this]
  obtain r where r: "sorted_desc (py_dict pairs) = Inr r" "mset r = mset (py_dict pairs)" by auto
  have "set r = set (py_dict pairs)" using r(2) by (metis set_mset_mset)
  then have "\<forall>p\<in>set r. numeric (snd p)" using num by simp
  from print_items_numeric [OF this] r show ?thesis by auto
qed

lemma processStats_numeric:
  assumes col: "gdf_numeric service_areas provider_coll_field = Some provider_coll"
    and prov: "\<forall>z\<in>set (zip provider_stats provider_coll). numeric (fst z) \<and> is_num (snd z)"
    and mun: "\<forall>p\<in>set (zip mun_names mun_stats). numeric (snd p)"
  shows "\<exists>provider_uncoll mun_dict_sorted provider_dict_sorted.
      uncoll_loop (zip provider_stats provider_coll) [] = Inr provider_uncoll
    \<and> (\<forall>u\<in>set provider_uncoll. numeric u)
    \<and> sorted_desc (py_dict (zip mun_names mun_stats)) = Inr mun_dict_sorted
    \<and> sorted_desc (py_dict (zip provider_names provider_uncoll)) = Inr provider_dict_sorted
    \<and> processStats service_areas mun_names mun_stats provider_names provider_stats
          provider_coll_field = Inr (mun_dict_sorted, provider_dict_sorted)"
proof -
  from uncoll_numeric [OF prov]
  obtain us where us: "uncoll_loop (zip provider_stats provider_coll) [] = Inr us"
    "\<forall>u\<in>set us. numeric u" by auto
  from sorted_print_ok [OF mun]
  obtain md mns where md: "sorted_desc (py_dict (zip mun_names mun_stats)) = Inr md"
    "print_items md = Inr mns" by auto
  have "\<forall>p\<in>set (zip provider_names us). numeric (snd p)"
    using us(2) by (auto dest: set_zip_rightD)
  from sorted_print_ok [OF this]
  obtain pd pns where pd: "sorted_desc (py_dict (zip provider_names us)) = Inr pd"
    "print_items pd = Inr pns" by auto
  show ?thesis using col us md pd by (simp add: processStats_def)
qed

lemma processStats_Inr:
  assumes "processStats service_areas mun_names mun_stats provider_names provider_stats
          provider_coll_field = Inr (md, pd)"
  shows "\<exists>provider_coll provider_uncoll.
      gdf_numeric service_areas provider_coll_field = Some provider_coll
    \<and> uncoll_loop (zip provider_stats provider_coll) [] = Inr provider_uncoll
    \<and> sorted_desc (py_dict (zip mun_names mun_stats)) = Inr md
    \<and> sorted_desc (py_dict (zip provider_names provider_uncoll)) = Inr pd"
  using assms by (auto simp: processStats_def Let_def split: option.splits sum.splits)

lemma map_of_rev_last:
  "map_of (rev pairs) n = Some v \<longleftrightarrow>
     (\<exists>i<length pairs. pairs ! i = (n, v) \<and> (\<forall>j<length pairs. i < j \<longrightarrow> fst (pairs ! j) \<noteq> n))"
proof (induction pairs rule: rev_induct)
  case Nil
  then show ?case by simp
next
  case (snoc p ps)
  show ?case
  proof (cases "fst p = n")
    case True
    have "(\<exists>i<length (ps @ [p]). (ps @ [p]) ! i = (n, v) \<and>
            (\<forall>j<length (ps @ [p]). i < j \<longrightarrow> fst ((ps @ [p]) ! j) \<noteq> n)) \<longleftrightarrow> p = (n, v)"
    proof
      assume "\<exists>i<length (ps @ [p]). (ps @ [p]) ! i = (n, v) \<and>
            (\<forall>j<length (ps @ [p]). i < j \<longrightarrow> fst ((ps @ [p]) ! j) \<noteq> n)"
      then obtain i where i: "i < length (ps @ [p])" "(ps @ [p]) ! i = (n, v)"
        "\<forall>j<length (ps @ [p]). i < j \<longrightarrow> fst ((ps @ [p]) ! j) \<noteq> n" by blast
      have "\<not> i < length ps"
      proof
        assume "i < length ps"
        then have "fst ((ps @ [p]) ! length ps) \<noteq> n"
          using i(3) [rule_format, of "length ps"] by simp
        then show False using True by simp
      qed
      then have "i = length ps" using i(1) by simp
      then show "p = (n, v)" using i(2) by simp
    next
      assume "p = (n, v)"
      then show "\<exists>i<length (ps @ [p]). (ps @ [p]) ! i = (n, v) \<and>
            (\<forall>j<length (ps @ [p]). i < j \<longrightarrow> fst ((ps @ [p]) ! j) \<noteq> n)"
        by (intro exI [of _ "length ps"]) simp
    qed
    moreover have "map_of (rev (ps @ [p])) n = Some v \<longleftrightarrow> p = (n, v)"
      using True by (cases p) auto
    ultimately show ?thesis by simp
  next
    case False
    have "(\<exists>i<length (ps @ [p]). (ps @ [p]) ! i = (n, v) \<and>
            (\<forall>j<length (ps @ [p]). i < j \<longrightarrow> fst ((ps @ [p]) ! j) \<noteq> n)) \<longleftrightarrow>
          (\<exists>i<length ps. ps ! i = (n, v) \<and> (\<forall>j<length ps. i < j \<longrightarrow> fst (ps ! j) \<noteq> n))"
      (is "?L \<longleftrightarrow> ?R")
    proof
      assume ?L
      then obtain i where i: "i < length (ps @ [p])" "(ps @ [p]) ! i = (n, v)"
        "\<forall>j<length (ps @ [p]). i < j \<longrightarrow> fst ((ps @ [p]) ! j) \<noteq> n" by blast
      have il: "i < length ps"
      proof (rule ccontr)
        assume "\<not> i < length ps"
        then have "i = length ps" using i(1) by simp
        then show False using i(2) False by simp
      qed
      have "\<forall>j<length ps. i < j \<longrightarrow> fst (ps ! j) \<noteq> n"
      proof (intro allI impI)
        fix j assume j: "j < length ps" "i < j"
        then have "fst ((ps @ [p]) ! j) \<noteq> n" using i(3) [rule_format, of j] by simp
        then show "fst (ps ! j) \<noteq> n" using j(1) by (simp add: nth_append)
      qed
      then show ?R using il i(2) by (auto simp: nth_append)
    next
      assume ?R
      then obtain i where i: "i < length ps" "ps ! i = (n, v)"
        "\<forall>j<length ps. i < j \<longrightarrow> fst (ps ! j) \<noteq> n" by blast
      have "\<forall>j<length (ps @ [p]). i < j \<longrightarrow> fst ((ps @ [p]) ! j) \<noteq> n"
      proof (intro allI impI)
        fix j assume j: "j < length (ps @ [p])" "i < j"
        show "fst ((ps @ [p]) ! j) \<noteq> n"
        proof (cases "j < length ps")
          case True
          then show ?thesis using i(3) [rule_format, of j] j(2) by (simp add: nth_append)
        next
          case False
          then have "j = length ps" using j(1) by simp
          then show ?thesis using \<open>fst p \<noteq> n\<close> by simp
        qed
      qed
      then show ?L using i(1,2) by (intro exI [of _ i]) (simp add: nth_append)
    qed
    moreover have "map_of (rev (ps @ [p])) n = map_of (rev ps) n"
      using False by (cases p) auto
    ultimately show ?thesis using snoc.IH by simp
  qed
qed

lemma py_dict_last_occurrences: "set (py_dict pairs) = last_occurrences pairs"
proof -
  have "(n, v) \<in> set (py_dict pairs) \<longleftrightarrow> (n, v) \<in> last_occurrences pairs" for n v
  proof -
    have "(n, v) \<in> set (py_dict pairs) \<longleftrightarrow> map_of (py_dict pairs) n = Some v"
      using py_dict_props(1) [of pairs] by (auto dest: map_of_SomeD)
    then show ?thesis
      by (simp add: py_dict_props(2) map_of_rev_last last_occurrences_def)
  qed
  then show ?thesis by auto
qed

lemma sorted_desc_dict_numeric:
  assumes "\<forall>p\<in>set pairs. numeric (snd p)" and "sorted_desc (py_dict pairs) = Inr r"
  shows "distinct (map fst r) \<and> set (map fst r) = fst ` set pairs \<and> set r = last_occurrences pairs"
proof -
  have num: "\<forall>p\<in>set (py_dict pairs). numeric (snd p)"
    using assms(1) py_dict_props(4) [of pairs] by auto
  from sorted_desc_numeric [OF this] assms(2)
  have m: "mset r = mset (py_dict pairs)" by auto
  then have "mset (map fst r) = mset (map fst (py_dict pairs))" by simp
  then have "distinct (map fst r)" "set (map fst r) = set (map fst (py_dict pairs))"
    using py_dict_props(1) [of pairs] by (metis mset_eq_imp_distinct_iff, metis set_mset_mset)
  then have 1: "distinct (map fst r)" and 2: "set (map fst r) = fst ` set pairs"
    using py_dict_props(3) [of pairs] by simp_all
  have "set r = set (py_dict pairs)" using m by (metis set_mset_mset)
  then have 3: "set r = last_occurrences pairs" by (simp only: py_dict_last_occurrences)
  show ?thesis using 1 2 3 by blast
qed

lemma length_py_dict: "length (py_dict pairs) \<le> length pairs"
proof -
  have "length (py_dict pairs) = length (map fst (py_dict pairs))" by simp
  also have "\<dots> = card (set (map fst (py_dict pairs)))"
    using py_dict_props(1) [of pairs] by (simp only: distinct_card)
  also have "\<dots> = card (fst ` set pairs)" by (simp only: py_dict_props(3))
  also have "\<dots> \<le> card (set pairs)" by (rule card_image_le) simp
  also have "\<dots> \<le> length pairs" by (rule card_length)
  finally show ?thesis .
qed

lemma sorted_desc_length:
  assumes "\<forall>p\<in>set items. numeric (snd p)" and "sorted_desc items = Inr r"
  shows "length r = length items"
  using sorted_desc_numeric [OF assms(1)] assms(2) by (metis Inr_inject size_mset)

text \<open>
  C2. The loop pairs the statistics with the reported totals by position: as long as no
  paired statistic is \<^verbatim>\<open>None\<close>, it returns one deficit for each position that both
  lists have, and the deficit at position \<open>k\<close> is the statistic at \<open>k\<close> minus the
  reported total at \<open>k\<close>. Whenever \<open>processStats\<close> returns, the ranking of the service
  providers is the ranking of these deficits under the provider names.
\<close>

theorem deficit_positional:
  assumes "gdf_numeric service_areas provider_coll_field = Some provider_coll"
    and "\<forall>k<min (length provider_stats) (length provider_coll). provider_stats ! k \<noteq> None"
  shows "\<exists>provider_uncoll.
      uncoll_loop (zip provider_stats provider_coll) [] = Inr provider_uncoll
    \<and> length provider_uncoll = min (length provider_stats) (length provider_coll)
    \<and> (\<forall>k<length provider_uncoll. \<exists>g. provider_stats ! k = Some g
          \<and> provider_uncoll ! k = Some (fsub g (provider_coll ! k)))
    \<and> (\<forall>md pd. processStats service_areas mun_names mun_stats provider_names provider_stats
           provider_coll_field = Inr (md, pd)
         \<longrightarrow> sorted_desc (py_dict (zip provider_names provider_uncoll)) = Inr pd)"
proof -
  let ?zs = "zip provider_stats provider_coll"
  have "\<forall>z\<in>set ?zs. fst z \<noteq> None"
  proof
    fix z assume "z \<in> set ?zs"
    then obtain k where k: "k < length ?zs" "?zs ! k = z" by (auto simp: in_set_conv_nth)
    then have "fst z = provider_stats ! k" by auto
    then show "fst z \<noteq> None" using assms(2) k(1) by simp
  qed
  from uncoll_loop_props [OF this, of "[]"]
  obtain us where us: "uncoll_loop ?zs [] = Inr us" "length us = length ?zs"
    "\<forall>k<length ?zs. py_sub (fst (?zs ! k)) (snd (?zs ! k)) = Inr (us ! k)" by auto
  have pos: "\<forall>k<length us. \<exists>g. provider_stats ! k = Some g
          \<and> us ! k = Some (fsub g (provider_coll ! k))"
  proof (intro allI impI)
    fix k assume k: "k < length us"
    then have sub: "py_sub (provider_stats ! k) (provider_coll ! k) = Inr (us ! k)"
      using us(2) us(3) [rule_format, of k] by simp
    have "provider_stats ! k \<noteq> None" using assms(2) k us(2) by simp
    then obtain g where g: "provider_stats ! k = Some g" by auto
    then show "\<exists>g. provider_stats ! k = Some g \<and> us ! k = Some (fsub g (provider_coll ! k))"
      using sub by simp
  qed
  have "\<forall>md pd. processStats service_areas mun_names mun_stats provider_names provider_stats
           provider_coll_field = Inr (md, pd)
         \<longrightarrow> sorted_desc (py_dict (zip provider_names us)) = Inr pd"
    using processStats_Inr [of service_areas mun_names mun_stats provider_names provider_stats
        provider_coll_field] assms(1) us(1) by fastforce
  then show ?thesis using us(1,2) pos by (intro exI [of _ us]) simp
qed

theorem deficit_positional_witness:
  "\<exists>provider_uncoll.
      uncoll_loop (zip [Some (Num 100), Some (Num 50)] [Num 120, Num 20]) [] = Inr provider_uncoll
    \<and> length provider_uncoll = 2
    \<and> provider_uncoll ! 0 = Some (Num (- 20)) \<and> provider_uncoll ! 1 = Some (Num 30)
    \<and> processStats \<lparr>gdf_text = Map.empty, gdf_numeric = [''total_coll'' \<mapsto> [Num 120, Num 20]],
          gdf_geometry = ([] :: (unit \<Rightarrow> coverage) list)\<rparr> [] [] [''P'', ''Q'']
          [Some (Num 100), Some (Num 50)] ''total_coll''
        = Inr ([], [(''Q'', Some (Num 30)), (''P'', Some (Num (- 20)))])"
proof -
  let ?sa = "\<lparr>gdf_text = Map.empty, gdf_numeric = [''total_coll'' \<mapsto> [Num 120, Num 20]],
          gdf_geometry = ([] :: (unit \<Rightarrow> coverage) list)\<rparr>"
  have h1: "gdf_numeric ?sa ''total_coll'' = Some [Num 120, Num 20]" by simp
  have h2: "\<forall>k<min (length [Some (Num 100), Some (Num 50)]) (length [Num 120, Num (20::real)]).
     [Some (Num 100), Some (Num 50)] ! k \<noteq> None"
    by (simp add: less_Suc_eq)
  have ev: "processStats ?sa [] [] [''P'', ''Q''] [Some (Num 100), Some (Num 50)] ''total_coll''
        = Inr ([], [(''Q'', Some (Num 30)), (''P'', Some (Num (- 20)))])"
    by (simp add: processStats_def py_dict_def sorted_desc_def)
  from deficit_positional [OF h1 h2, of "[]" "[]" "[''P'', ''Q'']"]
  show ?thesis using ev by (auto simp: )
qed

text \<open>
  C3. On items whose values are all numbers, the ranking is returned, it is in descending
  order of the values, it has the items of the input, and for each value the items with
  that value come in the order they have in the input; with distinct names the dict built
  before the sort is the list of pairs itself, so this is the ranking that
  \<open>processStats\<close> computes from them. The pairs \<open>A 30, B 30, C 10\<close> rank as they stand.
\<close>

theorem ranking_descending_stable:
  assumes "\<forall>p\<in>set items. numeric (snd p)"
  shows "(\<exists>r. sorted_desc items = Inr r \<and> descending r \<and> mset r = mset items
       \<and> (\<forall>v. filter (\<lambda>p. snd p = v) r = filter (\<lambda>p. snd p = v) items)
       \<and> (distinct (map fst items) \<longrightarrow> sorted_desc (py_dict items) = Inr r))
    \<and> sorted_desc (py_dict [(''A'', Some (Num 30)), (''B'', Some (Num 30)), (''C'', Some (Num 10))])
        = Inr [(''A'', Some (Num 30)), (''B'', Some (Num 30)), (''C'', Some (Num 10))]"
proof
  from sorted_desc_numeric [OF assms]
  obtain r where r: "sorted_desc items = Inr r" "mset r = mset items" "descending r"
    "\<forall>v. filter (\<lambda>p. snd p = v) r = filter (\<lambda>p. snd p = v) items" by auto
  have "distinct (map fst items) \<longrightarrow> sorted_desc (py_dict items) = Inr r"
    using r(1) by (simp add: py_dict_distinct)
  then show "\<exists>r. sorted_desc items = Inr r \<and> descending r \<and> mset r = mset items
       \<and> (\<forall>v. filter (\<lambda>p. snd p = v) r = filter (\<lambda>p. snd p = v) items)
       \<and> (distinct (map fst items) \<longrightarrow> sorted_desc (py_dict items) = Inr r)"
    using r by blast
next
  show "sorted_desc (py_dict [(''A'', Some (Num 30)), (''B'', Some (Num 30)), (''C'', Some (Num 10))])
        = Inr [(''A'', Some (Num 30)), (''B'', Some (Num 30)), (''C'', Some (Num 10))]"
    by (simp add: py_dict_def sorted_desc_def)
qed

theorem ranking_descending_stable_witness:
  "\<exists>r. sorted_desc [(''Zeta'', Some (Num 5)), (''Mid'', Some (Num 9)), (''Alpha'', Some (Num 5))] = Inr r
     \<and> descending r
     \<and> filter (\<lambda>p. snd p = Some (Num 5)) r = [(''Zeta'', Some (Num 5)), (''Alpha'', Some (Num 5))]
     \<and> r = [(''Mid'', Some (Num 9)), (''Zeta'', Some (Num 5)), (''Alpha'', Some (Num 5))]"
proof -
  let ?items = "[(''Zeta'', Some (Num 5)), (''Mid'', Some (Num 9)), (''Alpha'', Some (Num 5))]"
  have h: "\<forall>p\<in>set ?items. numeric (snd p)" by simp
  have ev: "sorted_desc ?items = Inr [(''Mid'', Some (Num 9)), (''Zeta'', Some (Num 5)), (''Alpha'', Some (Num 5))]"
    by (simp add: sorted_desc_def)
  from ranking_descending_stable [OF h]
  obtain r where r: "sorted_desc ?items = Inr r" "descending r"
    "\<forall>v. filter (\<lambda>p. snd p = v) r = filter (\<lambda>p. snd p = v) ?items" by blast
  have "filter (\<lambda>p. snd p = Some (Num 5)) r = filter (\<lambda>p. snd p = Some (Num 5)) ?items"
    using r(3) by blast
  then have "filter (\<lambda>p. snd p = Some (Num 5)) r = [(''Zeta'', Some (Num 5)), (''Alpha'', Some (Num 5))]"
    by simp
  then show ?thesis using r(1,2) ev by simp
qed

text \<open>
  C7. With distinct provider names and numeric inputs, a service area whose reported total
  \<open>c\<close> exceeds its statistic \<open>g\<close> is in the ranking returned with the value
  \<open>g - c\<close>, which is negative, and with no other value. For \<open>g = 100\<close> and
  \<open>c = 120\<close> the entry is \<open>- 20\<close>.
\<close>

theorem negative_deficit_preserved:
  assumes "gdf_numeric service_areas provider_coll_field = Some provider_coll"
    and "\<forall>z\<in>set (zip provider_stats provider_coll). numeric (fst z) \<and> is_num (snd z)"
    and "\<forall>p\<in>set (zip mun_names mun_stats). numeric (snd p)"
    and "distinct provider_names"
    and "k < length provider_names" and "k < length provider_stats" and "k < length provider_coll"
    and "provider_stats ! k = Some (Num g)" and "provider_coll ! k = Num c" and "g < c"
  shows "\<exists>md pd. processStats service_areas mun_names mun_stats provider_names provider_stats
           provider_coll_field = Inr (md, pd)
    \<and> (provider_names ! k, Some (Num (g - c))) \<in> set pd
    \<and> (\<forall>v. (provider_names ! k, v) \<in> set pd \<longrightarrow> v = Some (Num (g - c)))
    \<and> g - c < 0"
proof -
  let ?zs = "zip provider_stats provider_coll"
  from processStats_numeric [OF assms(1,2,3), of provider_names]
  obtain us md pd where us: "uncoll_loop ?zs [] = Inr us" "\<forall>u\<in>set us. numeric u"
    and pd: "sorted_desc (py_dict (zip provider_names us)) = Inr pd"
    and res: "processStats service_areas mun_names mun_stats provider_names provider_stats
           provider_coll_field = Inr (md, pd)" by blast
  have "\<forall>z\<in>set ?zs. fst z \<noteq> None"
  proof
    fix z assume "z \<in> set ?zs"
    then have "numeric (fst z)" using assms(2) by simp
    then show "fst z \<noteq> None" by (cases "fst z") simp_all
  qed
  from uncoll_loop_props [OF this, of "[]"] us(1)
  have len: "length us = length ?zs"
    and sub: "\<forall>k<length ?zs. py_sub (fst (?zs ! k)) (snd (?zs ! k)) = Inr (us ! k)" by auto
  have kz: "k < length ?zs" using assms(6,7) by simp
  have usk: "us ! k = Some (Num (g - c))"
    using sub [rule_format, OF kz] kz assms(8,9) by simp
  let ?items = "zip provider_names us"
  have d: "distinct (map fst ?items)" using assms(4) by (simp add: map_fst_zip_take)
  have num: "\<forall>p\<in>set ?items. numeric (snd p)" using us(2) by (auto dest: set_zip_rightD)
  have "sorted_desc ?items = Inr pd" using pd d by (simp add: py_dict_distinct)
  from sorted_desc_numeric [OF num] this have "mset pd = mset ?items" by auto
  then have set: "set pd = set ?items" by (metis set_mset_mset)
  have ki: "k < length ?items" using assms(5) kz len by simp
  then have "?items ! k \<in> set ?items" by (rule nth_mem)
  then have mem: "(provider_names ! k, Some (Num (g - c))) \<in> set ?items"
    using ki usk by simp
  have uniq: "\<forall>v. (provider_names ! k, v) \<in> set ?items \<longrightarrow> v = Some (Num (g - c))"
    using eq_key_imp_eq_value [OF d _ mem] by blast
  have neg: "g - c < 0" using assms(10) by simp
  have mem': "(provider_names ! k, Some (Num (g - c))) \<in> set pd"
    using mem by (simp only: set)
  have uniq': "\<forall>v. (provider_names ! k, v) \<in> set pd \<longrightarrow> v = Some (Num (g - c))"
    using uniq by (simp only: set)
  show ?thesis using res mem' uniq' neg by blast
qed

theorem negative_deficit_preserved_witness:
  "processStats \<lparr>gdf_text = Map.empty, gdf_numeric = [''total_coll'' \<mapsto> [Num 120]],
          gdf_geometry = ([] :: (unit \<Rightarrow> coverage) list)\<rparr> [] [] [''P'']
          [Some (Num 100)] ''total_coll''
        = Inr ([], [(''P'', Some (Num (- 20)))])"
proof -
  let ?sa = "\<lparr>gdf_text = Map.empty, gdf_numeric = [''total_coll'' \<mapsto> [Num 120]],
          gdf_geometry = ([] :: (unit \<Rightarrow> coverage) list)\<rparr>"
  have h1: "gdf_numeric ?sa ''total_coll'' = Some [Num 120]" by simp
  have h2: "\<forall>z\<in>set (zip [Some (Num 100)] [Num 120]). numeric (fst z) \<and> is_num (snd z)" by simp
  have h3: "\<forall>p\<in>set (zip ([] :: string list) ([] :: pyval list)). numeric (snd p)" by simp
  from negative_deficit_preserved [OF h1 h2 h3, of "[''P'']" 0 100 120]
  obtain md pd where r: "processStats ?sa [] [] [''P''] [Some (Num 100)] ''total_coll'' = Inr (md, pd)"
    "(''P'', Some (Num (- 20))) \<in> set pd" by auto
  have "processStats ?sa [] [] [''P''] [Some (Num 100)] ''total_coll''
        = Inr ([], [(''P'', Some (Num (- 20)))])"
    by (simp add: processStats_def py_dict_def sorted_desc_def)
  then show ?thesis using r by simp
qed

lemma insert_asc_mset: "insert_asc x ys = Inr r \<Longrightarrow> mset r = add_mset x (mset ys)"
proof (induction ys arbitrary: r)
  case Nil
  then show ?case by auto
next
  case (Cons y ys)
  show ?case
  proof (cases "py_lt (snd x) (snd y)")
    case (Inl e)
    then show ?thesis using Cons.prems by simp
  next
    case (Inr b)
    show ?thesis
    proof (cases b)
      case True
      then show ?thesis using Cons.prems Inr by auto
    next
      case False
      then obtain r' where r': "insert_asc x ys = Inr r'" "r = y # r'"
        using Cons.prems Inr by (auto split: sum.splits)
      then show ?thesis using Cons.IH [OF r'(1)] by simp
    qed
  qed
qed

lemma sort_asc_mset: "sort_asc xs acc = Inr r \<Longrightarrow> mset r = mset xs + mset acc"
proof (induction xs arbitrary: acc r)
  case Nil
  then show ?case by simp
next
  case (Cons x xs)
  then obtain acc' where a: "insert_asc x acc = Inr acc'" "sort_asc xs acc' = Inr r"
    by (auto split: sum.splits)
  show ?case using Cons.IH [OF a(2)] insert_asc_mset [OF a(1)] by simp
qed

lemma sorted_desc_mset: "sorted_desc items = Inr r \<Longrightarrow> mset r = mset items"
proof -
  assume "sorted_desc items = Inr r"
  then obtain r' where r': "sort_asc (rev items) [] = Inr r'" "r = rev r'"
    by (auto simp: sorted_desc_def split: sum.splits)
  show ?thesis using sort_asc_mset [OF r'(1)] r'(2) by simp
qed

lemma print_items_Inr: "print_items xs = Inr ns \<Longrightarrow> \<forall>p\<in>set xs. numeric (snd p)"
proof (induction xs arbitrary: ns)
  case Nil
  then show ?case by simp
next
  case (Cons p xs)
  then obtain n ns' where n: "py_int (snd p) = Inr n" "print_items xs = Inr ns'"
    by (auto split: sum.splits)
  have "numeric (snd p)" using n(1) by (cases "snd p" rule: py_int.cases) simp_all
  then show ?case using Cons.IH [OF n(2)] by simp
qed

lemma processStats_Inr_print:
  assumes "processStats service_areas mun_names mun_stats provider_names provider_stats
          provider_coll_field = Inr (md, pd)"
  shows "(\<exists>ns. print_items md = Inr ns) \<and> (\<exists>ns. print_items pd = Inr ns)"
  using assms by (auto simp: processStats_def Let_def split: option.splits sum.splits)

text \<open>
  C5, as stated, fails: with a statistic that is \<^verbatim>\<open>None\<close> among those paired with a
  reported total, \<open>processStats\<close> raises \<^verbatim>\<open>TypeError\<close> and returns no ranking.
\<close>

theorem undefined_aggregate_counterexample:
  "processStats \<lparr>gdf_text = Map.empty, gdf_numeric = [''total_coll'' \<mapsto> [Num 5, Num 3]],
          gdf_geometry = ([] :: (unit \<Rightarrow> coverage) list)\<rparr> [] [] [''P'', ''Q'']
          [Some (Num 8), None] ''total_coll''
     = Inl TypeError"
  by (simp add: processStats_def)

text \<open>
  C5, as the code behaves. If the statistic at a position \<open>k\<close> that both lists have is
  \<^verbatim>\<open>None\<close>, the subtraction raises \<^verbatim>\<open>TypeError\<close>: there is no deficit, no
  ranking, and no zero in its place. If it is not-a-number, the provider names being
  distinct and \<open>k\<close> a position of the names too, the deficit is not-a-number and
  \<open>processStats\<close> raises as well (at the latest when \<^verbatim>\<open>int\<close> is applied to it for
  printing), so again no ranking is returned.
\<close>

theorem undefined_aggregate_raises:
  assumes "gdf_numeric service_areas provider_coll_field = Some provider_coll"
    and "k < length provider_stats" and "k < length provider_coll"
  shows "(provider_stats ! k = None \<longrightarrow>
            processStats service_areas mun_names mun_stats provider_names provider_stats
              provider_coll_field = Inl TypeError)
       \<and> (provider_stats ! k = Some NaN \<and> distinct provider_names \<and> k < length provider_names \<longrightarrow>
            (\<exists>e. processStats service_areas mun_names mun_stats provider_names provider_stats
              provider_coll_field = Inl e))"
proof (intro conjI impI)
  let ?zs = "zip provider_stats provider_coll"
  have kz: "k < length ?zs" using assms(2,3) by simp
  then have zk: "?zs ! k \<in> set ?zs" by (rule nth_mem)
  {
    assume "provider_stats ! k = None"
    then have "\<exists>z\<in>set ?zs. fst z = None" using zk kz by (intro bexI [of _ "?zs ! k"]) simp_all
    then have "uncoll_loop ?zs [] = Inl TypeError" by (rule uncoll_loop_None)
    then show "processStats service_areas mun_names mun_stats provider_names provider_stats
              provider_coll_field = Inl TypeError"
      using assms(1) by (simp add: processStats_def)
  }
  {
    assume a: "provider_stats ! k = Some NaN \<and> distinct provider_names \<and> k < length provider_names"
    show "\<exists>e. processStats service_areas mun_names mun_stats provider_names provider_stats
              provider_coll_field = Inl e"
    proof (cases "processStats service_areas mun_names mun_stats provider_names provider_stats
              provider_coll_field")
      case (Inl e)
      then show ?thesis by simp
    next
      case (Inr res)
      obtain md pd where res: "res = (md, pd)" by (cases res)
      from processStats_Inr [OF Inr [unfolded res]] assms(1)
      obtain us where us: "uncoll_loop ?zs [] = Inr us"
        "sorted_desc (py_dict (zip provider_names us)) = Inr pd" by auto
      have "\<forall>z\<in>set ?zs. fst z \<noteq> None"
      proof
        fix z assume z: "z \<in> set ?zs"
        show "fst z \<noteq> None"
        proof
          assume "fst z = None"
          with z have "\<exists>z\<in>set ?zs. fst z = None" by (intro bexI [of _ z])
          then have "uncoll_loop ?zs [] = Inl TypeError" by (rule uncoll_loop_None)
          then show False using us(1) by simp
        qed
      qed
      from uncoll_loop_props [OF this, of "[]"] us(1)
      have len: "length us = length ?zs"
        and sub: "\<forall>k<length ?zs. py_sub (fst (?zs ! k)) (snd (?zs ! k)) = Inr (us ! k)" by auto
      have usk: "us ! k = Some NaN" using sub [rule_format, OF kz] kz a by simp
      let ?items = "zip provider_names us"
      have d: "distinct (map fst ?items)" using a by (simp add: map_fst_zip_take)
      have ki: "k < length ?items" using a kz len by simp
      then have "?items ! k \<in> set ?items" by (rule nth_mem)
      then have mem: "(provider_names ! k, Some NaN) \<in> set ?items" using ki usk by simp
      have "sorted_desc ?items = Inr pd" using us(2) d by (simp add: py_dict_distinct)
      then have "mset pd = mset ?items" by (rule sorted_desc_mset)
      then have "set pd = set ?items" by (metis set_mset_mset)
      then have "(provider_names ! k, Some NaN) \<in> set pd" using mem by simp
      moreover obtain ns where "print_items pd = Inr ns"
        using processStats_Inr_print [OF Inr [unfolded res]] by auto
      ultimately have "numeric (snd (provider_names ! k, Some NaN))"
        using print_items_Inr by blast
      then show ?thesis by simp
    qed
  }
qed

theorem undefined_aggregate_raises_witness:
  "processStats \<lparr>gdf_text = Map.empty, gdf_numeric = [''total_coll'' \<mapsto> [Num 5, Num 3]],
          gdf_geometry = ([] :: (unit \<Rightarrow> coverage) list)\<rparr> [(''M'')] [Some (Num 1)] [''P'', ''Q'']
          [None, Some (Num 8)] ''total_coll'' = Inl TypeError
   \<and> (\<exists>e. processStats \<lparr>gdf_text = Map.empty, gdf_numeric = [''total_coll'' \<mapsto> [Num 5, Num 3]],
          gdf_geometry = ([] :: (unit \<Rightarrow> coverage) list)\<rparr> [(''M'')] [Some (Num 1)] [''P'', ''Q'']
          [Some NaN, Some (Num 8)] ''total_coll'' = Inl e)"
proof -
  let ?sa = "\<lparr>gdf_text = Map.empty, gdf_numeric = [''total_coll'' \<mapsto> [Num 5, Num 3]],
          gdf_geometry = ([] :: (unit \<Rightarrow> coverage) list)\<rparr>"
  have h1: "gdf_numeric ?sa ''total_coll'' = Some [Num 5, Num 3]" by simp
  have a: "processStats ?sa [(''M'')] [Some (Num 1)] [''P'', ''Q''] [None, Some (Num 8)] ''total_coll''
      = Inl TypeError"
    using undefined_aggregate_raises [OF h1, of 0 "[None, Some (Num 8)]" "[''M'']" "[Some (Num 1)]"
       "[''P'', ''Q'']"] by simp
  have b: "\<exists>e. processStats ?sa [(''M'')] [Some (Num 1)] [''P'', ''Q''] [Some NaN, Some (Num 8)]
      ''total_coll'' = Inl e"
    using undefined_aggregate_raises [OF h1, of 0 "[Some NaN, Some (Num 8)]" "[''M'']" "[Some (Num 1)]"
       "[''P'', ''Q'']"] by simp
  show ?thesis using a b by simp
qed

text \<open>
  C9. On numeric inputs \<open>processStats\<close> returns, whatever names are repeated, and each
  of its two rankings has every name of its pairs exactly once; its entries are the pairs
  that are the last with their name in the input, so the value of a name is that of the
  last zone with that name and the values of the earlier ones are gone.
\<close>

theorem duplicate_names_collapse:
  assumes "gdf_numeric service_areas provider_coll_field = Some provider_coll"
    and "\<forall>z\<in>set (zip provider_stats provider_coll). numeric (fst z) \<and> is_num (snd z)"
    and "\<forall>p\<in>set (zip mun_names mun_stats). numeric (snd p)"
  shows "\<exists>provider_uncoll md pd.
      uncoll_loop (zip provider_stats provider_coll) [] = Inr provider_uncoll
    \<and> processStats service_areas mun_names mun_stats provider_names provider_stats
         provider_coll_field = Inr (md, pd)
    \<and> distinct (map fst md)
    \<and> set (map fst md) = fst ` set (zip mun_names mun_stats)
    \<and> set md = last_occurrences (zip mun_names mun_stats)
    \<and> distinct (map fst pd)
    \<and> set (map fst pd) = fst ` set (zip provider_names provider_uncoll)
    \<and> set pd = last_occurrences (zip provider_names provider_uncoll)"
proof -
  from processStats_numeric [OF assms, of provider_names]
  obtain us md pd where us: "uncoll_loop (zip provider_stats provider_coll) [] = Inr us"
      "\<forall>u\<in>set us. numeric u"
    and md: "sorted_desc (py_dict (zip mun_names mun_stats)) = Inr md"
    and pd: "sorted_desc (py_dict (zip provider_names us)) = Inr pd"
    and res: "processStats service_areas mun_names mun_stats provider_names provider_stats
           provider_coll_field = Inr (md, pd)" by blast
  have num: "\<forall>p\<in>set (zip provider_names us). numeric (snd p)"
    using us(2) by (auto dest: set_zip_rightD)
  note m = sorted_desc_dict_numeric [OF assms(3) md]
  note p = sorted_desc_dict_numeric [OF num pd]
  show ?thesis
    apply (rule exI [of _ us], rule exI [of _ md], rule exI [of _ pd])
    using us(1) res m p by blast
qed

theorem duplicate_names_collapse_witness:
  "processStats \<lparr>gdf_text = Map.empty, gdf_numeric = [''total_coll'' \<mapsto> [Num 1, Num 1]],
          gdf_geometry = ([] :: (unit \<Rightarrow> coverage) list)\<rparr>
       [''A'', ''B'', ''A''] [Some (Num 1), Some (Num 2), Some (Num 3)]
       [''P'', ''P''] [Some (Num 10), Some (Num 20)] ''total_coll''
     = Inr ([(''A'', Some (Num 3)), (''B'', Some (Num 2))], [(''P'', Some (Num 19))])"
proof -
  let ?sa = "\<lparr>gdf_text = Map.empty, gdf_numeric = [''total_coll'' \<mapsto> [Num 1, Num 1]],
          gdf_geometry = ([] :: (unit \<Rightarrow> coverage) list)\<rparr>"
  have h1: "gdf_numeric ?sa ''total_coll'' = Some [Num 1, Num 1]" by simp
  have h2: "\<forall>z\<in>set (zip [Some (Num 10), Some (Num 20)] [Num 1, Num 1]).
      numeric (fst z) \<and> is_num (snd z)" by simp
  have h3: "\<forall>p\<in>set (zip [''A'', ''B'', ''A''] [Some (Num 1), Some (Num 2), Some (Num 3)]).
      numeric (snd p)" by simp
  from duplicate_names_collapse [OF h1 h2 h3, of "[''P'', ''P'']"]
  obtain md pd where "processStats ?sa [''A'', ''B'', ''A''] [Some (Num 1), Some (Num 2), Some (Num 3)]
       [''P'', ''P''] [Some (Num 10), Some (Num 20)] ''total_coll'' = Inr (md, pd)"
    "distinct (map fst md)" by blast
  moreover have "processStats ?sa [''A'', ''B'', ''A''] [Some (Num 1), Some (Num 2), Some (Num 3)]
       [''P'', ''P''] [Some (Num 10), Some (Num 20)] ''total_coll''
     = Inr ([(''A'', Some (Num 3)), (''B'', Some (Num 2))], [(''P'', Some (Num 19))])"
    by (simp add: processStats_def py_dict_def sorted_desc_def)
  ultimately show ?thesis by simp
qed

text \<open>
  C10. On numeric pairs the loop returns one deficit for each position that both the
  statistics and the reported totals have, so as many as the shorter list holds; the
  entries beyond that position do not matter (the same deficits come from the two lists
  cut to that length), \<open>processStats\<close> returns, and its provider ranking has no more
  entries than there are deficits.
\<close>

theorem deficit_truncates_to_shorter:
  assumes "gdf_numeric service_areas provider_coll_field = Some provider_coll"
    and "\<forall>z\<in>set (zip provider_stats provider_coll). numeric (fst z) \<and> is_num (snd z)"
    and "\<forall>p\<in>set (zip mun_names mun_stats). numeric (snd p)"
  shows "\<exists>provider_uncoll md pd.
      uncoll_loop (zip provider_stats provider_coll) [] = Inr provider_uncoll
    \<and> length provider_uncoll = min (length provider_stats) (length provider_coll)
    \<and> uncoll_loop (zip (take (length provider_uncoll) provider_stats)
          (take (length provider_uncoll) provider_coll)) [] = Inr provider_uncoll
    \<and> processStats service_areas mun_names mun_stats provider_names provider_stats
         provider_coll_field = Inr (md, pd)
    \<and> length pd \<le> length provider_uncoll"
proof -
  let ?zs = "zip provider_stats provider_coll"
  from processStats_numeric [OF assms, of provider_names]
  obtain us md pd where us: "uncoll_loop ?zs [] = Inr us" "\<forall>u\<in>set us. numeric u"
    and pd: "sorted_desc (py_dict (zip provider_names us)) = Inr pd"
    and res: "processStats service_areas mun_names mun_stats provider_names provider_stats
           provider_coll_field = Inr (md, pd)" by blast
  from uncoll_numeric [OF assms(2)] us(1)
  have len: "length us = min (length provider_stats) (length provider_coll)" by auto
  have "zip (take (length us) provider_stats) (take (length us) provider_coll) = ?zs"
    by (simp add: len take_zip [symmetric])
  then have trunc: "uncoll_loop (zip (take (length us) provider_stats)
          (take (length us) provider_coll)) [] = Inr us" using us(1) by simp
  have "mset pd = mset (py_dict (zip provider_names us))" using pd by (rule sorted_desc_mset)
  then have "length pd = length (py_dict (zip provider_names us))" by (metis size_mset)
  also have "\<dots> \<le> length (zip provider_names us)" by (rule length_py_dict)
  also have "\<dots> \<le> length us" by simp
  finally have le: "length pd \<le> length us" .
  show ?thesis
    apply (rule exI [of _ us], rule exI [of _ md], rule exI [of _ pd])
    using us(1) len trunc res le by blast
qed

theorem deficit_truncates_to_shorter_witness:
  "processStats \<lparr>gdf_text = Map.empty, gdf_numeric = [''total_coll'' \<mapsto> [Num 1, Num 2]],
          gdf_geometry = ([] :: (unit \<Rightarrow> coverage) list)\<rparr> [] []
       [''P'', ''Q'', ''R''] [Some (Num 10), Some (Num 20), None] ''total_coll''
     = Inr ([], [(''Q'', Some (Num 18)), (''P'', Some (Num 9))])
   \<and> uncoll_loop (zip [Some (Num 10), Some (Num 20), None] [Num 1, Num 2]) []
     = Inr [Some (Num 9), Some (Num 18)]"
proof -
  let ?sa = "\<lparr>gdf_text = Map.empty, gdf_numeric = [''total_coll'' \<mapsto> [Num 1, Num 2]],
          gdf_geometry = ([] :: (unit \<Rightarrow> coverage) list)\<rparr>"
  have h1: "gdf_numeric ?sa ''total_coll'' = Some [Num 1, Num 2]" by simp
  have h2: "\<forall>z\<in>set (zip [Some (Num 10), Some (Num 20), None] [Num 1, Num 2]).
      numeric (fst z) \<and> is_num (snd z)" by simp
  have h3: "\<forall>p\<in>set (zip ([] :: string list) ([] :: pyval list)). numeric (snd p)" by simp
  from deficit_truncates_to_shorter [OF h1 h2 h3, of "[''P'', ''Q'', ''R'']"]
  obtain us where "uncoll_loop (zip [Some (Num 10), Some (Num 20), None] [Num 1, Num 2]) [] = Inr us"
    "length us = min (length [Some (Num 10), Some (Num 20), None]) (length [Num 1, Num (2::real)])"
    by blast
  moreover have "processStats ?sa [] [] [''P'', ''Q'', ''R''] [Some (Num 10), Some (Num 20), None]
       ''total_coll'' = Inr ([], [(''Q'', Some (Num 18)), (''P'', Some (Num 9))])"
    by (simp add: processStats_def py_dict_def sorted_desc_def)
  ultimately show ?thesis by simp
qed

section \<open>Properties of the window and of zonalStats\<close>

lemma inside_clip: "intersects a b \<Longrightarrow> inside (clip a b) a \<and> inside (clip a b) b"
  by (simp add: inside_def clip_def)

lemma mass_array_empty: "mass_array [] sw_ppd = []"
  by (simp add: mass_array_map)

text \<open>
  C6, as stated, fails in its first half: for a box that does not intersect the extent of
  the raster, \<open>computeArray\<close> returns, with an empty grid and the transform of the box;
  no out-of-bounds error reaches the caller.
\<close>

theorem window_out_of_bounds_counterexample:
  "computeArray
     \<lparr>ds_extent = \<lparr>minX = 0, minY = 0, maxX = 10, maxY = 10\<rparr>, ds_nodata = Some (Num (- 99999)),
      ds_samples = (\<lambda>w. [[Num 1000, Num (- 99999)]]), ds_transform = (\<lambda>w. (minX w, maxY w))\<rparr>
     \<lparr>minX = 20, minY = 20, maxX = 30, maxY = 30\<rparr> (Num (1/2))
     = Inr ([], (20, 30), Some (Num (- 99999)))
 \<and> computeArray
     \<lparr>ds_extent = \<lparr>minX = 0, minY = 0, maxX = 10, maxY = 10\<rparr>, ds_nodata = Some (Num (- 99999)),
      ds_samples = (\<lambda>w. [[Num 1000, Num (- 99999)]]), ds_transform = (\<lambda>w. (minX w, maxY w))\<rparr>
     \<lparr>minX = 20, minY = 20, maxX = 30, maxY = 30\<rparr> (Num (1/2))
     \<noteq> Inl OutOfBoundsError"
  by (simp add: computeArray_def dataset_window_def dataset_read_def
      dataset_window_transform_def intersects_def mass_array_empty)

text \<open>
  C6, as the code behaves. For every box with its bounds in order, \<open>computeArray\<close>
  returns and raises no error. If the box does not intersect the extent of the raster,
  the grid returned is empty. If it intersects it, also partly, the grid is the mass grid
  of the samples in the part of the box that lies inside the extent, and that part is
  inside both the box and the extent. In both cases the transform returned is that of
  the box as requested, not of the part that was read.
\<close>

theorem window_read_without_bounds_error:
  assumes "minX bbox \<le> maxX bbox" and "minY bbox \<le> maxY bbox"
  shows "(\<forall>e. computeArray dataset bbox sw_ppd \<noteq> Inl e)
 \<and> (\<not> intersects bbox (ds_extent dataset) \<longrightarrow>
      computeArray dataset bbox sw_ppd =
        Inr ([], ds_transform dataset bbox, ds_nodata dataset))
 \<and> (intersects bbox (ds_extent dataset) \<longrightarrow>
      computeArray dataset bbox sw_ppd =
        Inr (mass_array (ds_samples dataset (clip bbox (ds_extent dataset))) sw_ppd,
             ds_transform dataset bbox,
             ds_nodata dataset)
      \<and> inside (clip bbox (ds_extent dataset)) bbox
      \<and> inside (clip bbox (ds_extent dataset)) (ds_extent dataset))"
  by (simp add: computeArray_def dataset_window_def dataset_read_def
      dataset_window_transform_def inside_clip mass_array_empty)

theorem window_read_without_bounds_error_witness:
  "computeArray
     \<lparr>ds_extent = \<lparr>minX = 0, minY = 0, maxX = 10, maxY = 10\<rparr>, ds_nodata = Some (Num (- 99999)),
      ds_samples = (\<lambda>w. [[Num 1000, Num (- 99999)]]), ds_transform = (\<lambda>w. (minX w, maxY w))\<rparr>
     \<lparr>minX = 12, minY = 0, maxX = 15, maxY = 5\<rparr> (Num (1/2))
     = Inr ([], (12, 5), Some (Num (- 99999)))
 \<and> computeArray
     \<lparr>ds_extent = \<lparr>minX = 0, minY = 0, maxX = 10, maxY = 10\<rparr>, ds_nodata = Some (Num (- 99999)),
      ds_samples = (\<lambda>w. [[Num 1000, Num (- 99999)]]), ds_transform = (\<lambda>w. (minX w, maxY w))\<rparr>
     \<lparr>minX = 5, minY = 5, maxX = 15, maxY = 15\<rparr> (Num (1/2))
     = Inr ([[Num (7/2), NaN]], (5, 15), Some (Num (- 99999)))"
proof -
  let ?ds = "\<lparr>ds_extent = \<lparr>minX = 0, minY = 0, maxX = 10, maxY = 10\<rparr>,
      ds_nodata = Some (Num (- 99999)),
      ds_samples = (\<lambda>w. [[Num 1000, Num (- 99999)]]),
      ds_transform = (\<lambda>w. (minX w, maxY w))\<rparr>"
  let ?out = "\<lparr>minX = 12, minY = 0, maxX = 15, maxY = 5\<rparr>"
  let ?part = "\<lparr>minX = 5, minY = 5, maxX = 15, maxY = 15\<rparr>"
  have o1: "minX ?out \<le> maxX ?out" and o2: "minY ?out \<le> maxY ?out" by simp_all
  have p1: "minX ?part \<le> maxX ?part" and p2: "minY ?part \<le> maxY ?part" by simp_all
  have out: "\<not> intersects ?out (ds_extent ?ds)"
    by (simp add: intersects_def)
  have part: "intersects ?part (ds_extent ?ds)"
    by (simp add: intersects_def)
  have a: "computeArray ?ds ?out (Num (1/2))
      = Inr ([], ds_transform ?ds ?out, ds_nodata ?ds)"
    using window_read_without_bounds_error [OF o1 o2, of ?ds "Num (1/2)"] out
    by blast
  have b: "computeArray ?ds ?part (Num (1/2))
      = Inr (mass_array (ds_samples ?ds (clip ?part (ds_extent ?ds))) (Num (1/2)),
             ds_transform ?ds ?part, ds_nodata ?ds)"
    using window_read_without_bounds_error [OF p1 p2, of ?ds "Num (1/2)"] part
    by blast
  have c: "mass_array [[Num 1000, Num (- 99999)]] (Num (1/2)) = [[Num (7/2), NaN]]"
    by (simp add: mass_array_map)
  show ?thesis using a b c by simp
qed

lemma getNamesStats_loop_map:
  assumes "\<forall>fd\<in>set temp. fd_properties fd name_field \<noteq> None \<and> fd_stats fd stat_select \<noteq> None"
  shows "getNamesStats_loop temp name_field stat_select fl sl =
     Inr (fl @ map (\<lambda>fd. the (fd_properties fd name_field)) temp,
          sl @ map (\<lambda>fd. the (fd_stats fd stat_select)) temp)"
  using assms
proof (induction temp arbitrary: fl sl)
  case Nil
  then show ?case by simp
next
  case (Cons fd temp)
  obtain n s where ns: "fd_properties fd name_field = Some n" "fd_stats fd stat_select = Some s"
    using Cons.prems by auto
  have "\<forall>fd\<in>set temp. fd_properties fd name_field \<noteq> None \<and> fd_stats fd stat_select \<noteq> None"
    using Cons.prems by simp
  from Cons.IH [OF this, of "fl @ [n]" "sl @ [s]"] ns show ?case by simp
qed

lemma getNamesStats_result:
  assumes "gdf_text vector name_field = Some names"
    and "length (gdf_geometry vector) \<le> length names"
  shows "getNamesStats vector array affine nodata name_field fl sl stat_select =
     Inr (fl @ take (length (gdf_geometry vector)) names,
          sl @ map (\<lambda>g. zone_sum array nodata (g affine)) (gdf_geometry vector))"
proof -
  let ?n = "length (gdf_geometry vector)"
  let ?temp = "zonal_stats (features vector) array affine nodata stat_select"
  have ok: "\<forall>fd\<in>set ?temp. fd_properties fd name_field \<noteq> None \<and> fd_stats fd stat_select \<noteq> None"
    using assms by (auto simp: zonal_stats_def features_def row_properties_def)
  have names: "map (\<lambda>fd. the (fd_properties fd name_field)) ?temp = take ?n names"
    using assms
    by (intro nth_equalityI) (simp_all add: zonal_stats_def features_def row_properties_def)
  have stats: "map (\<lambda>fd. the (fd_stats fd stat_select)) ?temp
      = map (\<lambda>g. zone_sum array nodata (g affine)) (gdf_geometry vector)"
    by (intro nth_equalityI) (simp_all add: zonal_stats_def features_def)
  show ?thesis
    using getNamesStats_loop_map [OF ok, of fl sl] names stats
    by (simp add: getNamesStats_def)
qed

text \<open>
  C4. With the name field present, \<open>getNamesStats\<close> returns the names and one statistic
  for each zone, in the order of the zones. The statistic of a zone is \<^verbatim>\<open>None\<close>, and so
  not the number zero, if the zone covers no valid cell, and it is not \<^verbatim>\<open>None\<close> if the
  zone covers a valid cell: a zone the raster does not cover is told from a zone that
  generates nothing.
\<close>

theorem undefined_zone_recorded:
  assumes "gdf_text vector name_field = Some names"
    and "length names = length (gdf_geometry vector)"
    and "i < length (gdf_geometry vector)"
  shows "\<exists>feature_list stat_list.
      getNamesStats vector array affine nodata name_field [] [] ''sum'' = Inr (feature_list, stat_list)
    \<and> feature_list = names \<and> length stat_list = length names
    \<and> (valid_cells array nodata ((gdf_geometry vector ! i) affine) = [] \<longrightarrow>
          stat_list ! i = None \<and> stat_list ! i \<noteq> Some (Num 0))
    \<and> (valid_cells array nodata ((gdf_geometry vector ! i) affine) \<noteq> [] \<longrightarrow>
          stat_list ! i \<noteq> None)"
proof -
  have "getNamesStats vector array affine nodata name_field [] [] ''sum'' =
     Inr (names, map (\<lambda>g. zone_sum array nodata (g affine)) (gdf_geometry vector))"
    using getNamesStats_result [OF assms(1), of array affine nodata "[]" "[]" "''sum''"] assms(2)
    by simp
  then show ?thesis using assms(2,3) by (simp add: zone_sum_def Let_def)
qed

theorem undefined_zone_recorded_witness:
  "getNamesStats
     \<lparr>gdf_text = [''ADM2_EN'' \<mapsto> [''Ikeja'', ''Epe'']], gdf_numeric = Map.empty,
      gdf_geometry = [\<lambda>t::unit. [((0, 0), 1)], \<lambda>t. [((0, 1), 1/2), ((5, 5), 1)]]\<rparr>
     [[Num 0, NaN]] () (Some (Num (- 99999))) ''ADM2_EN'' [] [] ''sum''
   = Inr ([''Ikeja'', ''Epe''], [Some (Num 0), None])"
proof -
  let ?v = "\<lparr>gdf_text = [''ADM2_EN'' \<mapsto> [''Ikeja'', ''Epe'']], gdf_numeric = Map.empty,
      gdf_geometry = [\<lambda>t::unit. [((0, 0), 1)], \<lambda>t. [((0, 1), 1/2), ((5, 5), 1)]]\<rparr>"
  have h1: "gdf_text ?v ''ADM2_EN'' = Some [''Ikeja'', ''Epe'']" by simp
  have h2: "length [''Ikeja'', ''Epe''] = length (gdf_geometry ?v)" by simp
  have h3: "1 < length (gdf_geometry ?v)" by simp
  have e: "valid_cells [[Num 0, NaN]] (Some (Num (- 99999))) ((gdf_geometry ?v ! 1) ()) = []"
    by (simp add: valid_cells_def covered_values_def is_valid_def)
  from undefined_zone_recorded [OF h1 h2 h3, of "[[Num 0, NaN]]" "()" "Some (Num (- 99999))"] e
  obtain fl sl where r: "getNamesStats ?v [[Num 0, NaN]] () (Some (Num (- 99999))) ''ADM2_EN'' [] [] ''sum''
      = Inr (fl, sl)" "sl ! 1 = None" by blast
  have "getNamesStats ?v [[Num 0, NaN]] () (Some (Num (- 99999))) ''ADM2_EN'' [] [] ''sum''
      = Inr ([''Ikeja'', ''Epe''], [Some (Num 0), None])"
    by (simp add: getNamesStats_def zonal_stats_def features_def row_properties_def zone_sum_def
        valid_cells_def covered_values_def is_valid_def)
  then show ?thesis using r by simp
qed

section \<open>Doubling the rate\<close>

lemma mass_array_double:
  "mass_array pop (Num (2 * r)) = map (map (fmul (Num 2))) (mass_array pop (Num r))"
proof -
  have "fdiv (fmul (fmul (if flt p (Num 0) then NaN else p) (Num (2 * r))) (Num 7)) (Num 1000)
      = fmul (Num 2) (fdiv (fmul (fmul (if flt p (Num 0) then NaN else p) (Num r)) (Num 7)) (Num 1000))"
    for p by (cases p) simp_all
  then show ?thesis by (simp add: mass_array_map comp_def)
qed

lemma mass_array_nonneg:
  assumes "0 < r" and "row \<in> set (mass_array pop (Num r))" and "c \<in> set row"
  shows "c = NaN \<or> (\<exists>m. c = Num m \<and> 0 \<le> m)"
proof -
  from assms(2) obtain prow where prow: "prow \<in> set pop"
    "row = map (\<lambda>p. fdiv (fmul (fmul (if flt p (Num 0) then NaN else p) (Num r)) (Num 7)) (Num 1000)) prow"
    by (auto simp: mass_array_map)
  from assms(3) prow(2) obtain p where
    "c = fdiv (fmul (fmul (if flt p (Num 0) then NaN else p) (Num r)) (Num 7)) (Num 1000)"
    by auto
  then have c: "c = (case p of NaN \<Rightarrow> NaN | Num x \<Rightarrow> if x < 0 then NaN else Num (x * r * 7 / 1000))"
    by (simp only: mass_cell_Num)
  show ?thesis
  proof (cases p)
    case NaN
    then show ?thesis using c by simp
  next
    case (Num x)
    show ?thesis
    proof (cases "x < 0")
      case True
      then show ?thesis using c Num by simp
    next
      case False
      then have nn: "0 \<le> x * r * 7 / 1000" using assms(1) by simp
      have "c = Num (x * r * 7 / 1000)" using c Num False by simp
      then show ?thesis using nn by blast
    qed
  qed
qed

lemma covered_values_map:
  "covered_values (map (map f) array) cov = map (\<lambda>(w, v). (w, f v)) (covered_values array cov)"
proof -
  have "filter (\<lambda>((r, c), w). r < length (map (map f) array) \<and> c < length (map (map f) array ! r)) cov
      = filter (\<lambda>((r, c), w). r < length array \<and> c < length (array ! r)) cov"
    by (rule filter_cong) auto
  then show ?thesis
    by (auto simp: covered_values_def)
qed

lemma covered_values_set:
  "(w, v) \<in> set (covered_values array cov) \<Longrightarrow> \<exists>row\<in>set array. v \<in> set row"
  by (auto simp: covered_values_def) (meson nth_mem)

lemma is_valid_double:
  assumes "case nodata of Some (Num n) \<Rightarrow> n \<le> 0 | _ \<Rightarrow> True"
    and "c = NaN \<or> (\<exists>m. c = Num m \<and> 0 \<le> m)"
  shows "is_valid nodata (fmul (Num 2) c) = is_valid nodata c"
  using assms by (auto simp: is_valid_def split: option.splits pyfloat.splits)

lemma foldl_fadd_double:
  "foldl fadd (fmul (Num 2) a) (map (fmul (Num 2)) xs) = fmul (Num 2) (foldl fadd a xs)"
proof (induction xs arbitrary: a)
  case Nil
  then show ?case by simp
next
  case (Cons x xs)
  have "fadd (fmul (Num 2) a) (fmul (Num 2) x) = fmul (Num 2) (fadd a x)"
    by (cases a; cases x) simp_all
  then show ?case using Cons.IH [of "fadd a x"] by simp
qed

lemma zone_sum_double:
  assumes "case nodata of Some (Num n) \<Rightarrow> n \<le> 0 | _ \<Rightarrow> True"
    and "\<forall>row\<in>set array. \<forall>c\<in>set row. c = NaN \<or> (\<exists>m. c = Num m \<and> 0 \<le> m)"
  shows "zone_sum (map (map (fmul (Num 2))) array) nodata cov
     = map_option (fmul (Num 2)) (zone_sum array nodata cov)"
proof -
  let ?cv = "covered_values array cov"
  have v: "filter (\<lambda>(w, v). is_valid nodata v) (map (\<lambda>(w, v). (w, fmul (Num 2) v)) ?cv)
      = map (\<lambda>(w, v). (w, fmul (Num 2) v)) (filter (\<lambda>(w, v). is_valid nodata v) ?cv)"
  proof -
    have "filter ((\<lambda>(w, v). is_valid nodata v) \<circ> (\<lambda>(w, v). (w, fmul (Num 2) v))) ?cv
        = filter (\<lambda>(w, v). is_valid nodata v) ?cv"
    proof (rule filter_cong [OF refl])
      fix x assume x: "x \<in> set ?cv"
      obtain w c where wc: "x = (w, c)" by (cases x)
      then obtain row where "row \<in> set array" "c \<in> set row"
        using x covered_values_set [of w c array cov] by auto
      then have "c = NaN \<or> (\<exists>m. c = Num m \<and> 0 \<le> m)" using assms(2) by blast
      from is_valid_double [OF assms(1) this]
      show "((\<lambda>(w, v). is_valid nodata v) \<circ> (\<lambda>(w, v). (w, fmul (Num 2) v))) x
          = (\<lambda>(w, v). is_valid nodata v) x" using wc by simp
    qed
    then show ?thesis by (simp add: filter_map)
  qed
  have vc: "valid_cells (map (map (fmul (Num 2))) array) nodata cov
      = map (\<lambda>(w, v). (w, fmul (Num 2) v)) (valid_cells array nodata cov)"
    by (simp add: valid_cells_def covered_values_map v)
  have m: "map (\<lambda>(w, v). fmul (Num w) v) (map (\<lambda>(w, v). (w, fmul (Num 2) v)) vs)
      = map (fmul (Num 2)) (map (\<lambda>(w, v). fmul (Num w) v) vs)" for vs
  proof -
    have "fmul (Num w) (fmul (Num 2) c) = fmul (Num 2) (fmul (Num w) c)" for w c
      by (cases c) simp_all
    then show ?thesis by (simp add: comp_def case_prod_beta)
  qed
  have z: "Num 0 = fmul (Num 2) (Num 0)" by simp
  show ?thesis
    unfolding zone_sum_def Let_def vc m
    by (subst z, subst foldl_fadd_double) simp
qed

lemma py_lt_double:
  "py_lt (map_option (fmul (Num 2)) a) (map_option (fmul (Num 2)) b) = py_lt a b"
proof (cases a)
  case None
  then show ?thesis by simp
next
  case (Some x)
  show ?thesis
  proof (cases b)
    case None
    then show ?thesis using Some by simp
  next
    case (Some y)
    then show ?thesis using \<open>a = Some x\<close> by (cases x; cases y) simp_all
  qed
qed

lemma insert_asc_double:
  "insert_asc (n, map_option (fmul (Num 2)) v) (scale_items ys)
     = (case insert_asc (n, v) ys of Inl e \<Rightarrow> Inl e | Inr r \<Rightarrow> Inr (scale_items r))"
proof (induction ys)
  case Nil
  then show ?case by (simp add: scale_items_def)
next
  case (Cons y ys)
  obtain m u where y: "y = (m, u)" by (cases y)
  have s: "scale_items (y # ys) = (m, map_option (fmul (Num 2)) u) # scale_items ys"
    by (simp add: scale_items_def y)
  show ?case
    unfolding s using Cons.IH
    by (simp add: y py_lt_double scale_items_def split: sum.splits bool.splits)
qed

lemma sort_asc_double:
  "sort_asc (scale_items xs) (scale_items acc)
     = (case sort_asc xs acc of Inl e \<Rightarrow> Inl e | Inr r \<Rightarrow> Inr (scale_items r))"
proof (induction xs arbitrary: acc)
  case Nil
  then show ?case by (simp add: scale_items_def)
next
  case (Cons x xs)
  obtain n v where x: "x = (n, v)" by (cases x)
  have s: "scale_items (x # xs) = (n, map_option (fmul (Num 2)) v) # scale_items xs"
    by (simp add: scale_items_def x)
  show ?case
    unfolding s using Cons.IH
    by (simp add: x insert_asc_double split: sum.splits)
qed

lemma sorted_desc_double:
  "sorted_desc (scale_items items)
     = (case sorted_desc items of Inl e \<Rightarrow> Inl e | Inr r \<Rightarrow> Inr (scale_items r))"
proof -
  have r: "rev (scale_items xs) = scale_items (rev xs)" for xs :: "('a \<times> pyval) list"
    by (simp add: scale_items_def rev_map)
  have e: "scale_items [] = ([] :: ('a \<times> pyval) list)" by (simp add: scale_items_def)
  show ?thesis
    using sort_asc_double [of "rev items" "[]"]
    by (simp add: sorted_desc_def r e split: sum.splits)
qed

lemma dict_setitem_double:
  "dict_setitem (scale_items d) k (map_option (fmul (Num 2)) v) = scale_items (dict_setitem d k v)"
  by (induction d k v rule: dict_setitem.induct) (auto simp: scale_items_def)

lemma py_dict_double: "py_dict (scale_items pairs) = scale_items (py_dict pairs)"
proof -
  have "foldl (\<lambda>d (k, v). dict_setitem d k v) (scale_items d) (scale_items pairs)
      = scale_items (foldl (\<lambda>d (k, v). dict_setitem d k v) d pairs)" for d :: "('a \<times> pyval) list"
  proof (induction pairs arbitrary: d)
    case Nil
    then show ?case by (simp add: scale_items_def)
  next
    case (Cons p pairs)
    obtain k v where p: "p = (k, v)" by (cases p)
    have s: "scale_items (p # pairs) = (k, map_option (fmul (Num 2)) v) # scale_items pairs"
      by (simp add: scale_items_def p)
    show ?case unfolding s using Cons.IH [of "dict_setitem d k v"]
      by (simp add: p dict_setitem_double)
  qed
  from this [of "[]"] show ?thesis by (simp add: py_dict_def scale_items_def)
qed

lemma zip_double:
  "zip names (map (map_option (fmul (Num 2))) stats) = scale_items (zip names stats)"
  by (simp add: scale_items_def zip_map2)

text \<open>
  C8, as stated, fails for the aggregate of a zone: \<open>computeArray\<close> returns the no-data
  marker of the population raster and \<open>zonalStats\<close> passes it on with the mass grid. With
  the marker 7, a cell of 1000 persons has mass 3.5 at the rate 0.5 and mass 7 at the rate
  1; the second equals the marker and is left out, so the aggregate is undefined, not 7.
\<close>

theorem rate_doubling_counterexample:
  "zone_sum (mass_array [[Num 1000]] (Num (1/2))) (Some (Num 7)) [((0, 0), 1)] = Some (Num (7/2))
 \<and> zone_sum (mass_array [[Num 1000]] (Num (2 * (1/2)))) (Some (Num 7)) [((0, 0), 1)] = None
 \<and> zone_sum (mass_array [[Num 1000]] (Num (2 * (1/2)))) (Some (Num 7)) [((0, 0), 1)]
     \<noteq> map_option (fmul (Num 2))
         (zone_sum (mass_array [[Num 1000]] (Num (1/2))) (Some (Num 7)) [((0, 0), 1)])
 \<and> (case computeArray
          \<lparr>ds_extent = \<lparr>minX = 0, minY = 0, maxX = 1, maxY = 1\<rparr>, ds_nodata = Some (Num 7),
           ds_samples = (\<lambda>w. [[Num 1000]]), ds_transform = (\<lambda>w. ())\<rparr>
          \<lparr>minX = 0, minY = 0, maxX = 1, maxY = 1\<rparr> (Num (1/2)) of
       Inl e \<Rightarrow> Inl e
     | Inr (array, affine, nodata) \<Rightarrow>
         zonalStats
           \<lparr>gdf_text = [''ADM2_EN'' \<mapsto> [''Ikeja'']], gdf_numeric = Map.empty,
            gdf_geometry = [\<lambda>t. [((0, 0), 1)]]\<rparr>
           \<lparr>gdf_text = [''psp_name'' \<mapsto> []], gdf_numeric = Map.empty, gdf_geometry = []\<rparr>
           array affine nodata ''sum'' ''ADM2_EN'' ''psp_name'')
     = Inr ([''Ikeja''], [Some (Num (7/2))], [], [])
 \<and> (case computeArray
          \<lparr>ds_extent = \<lparr>minX = 0, minY = 0, maxX = 1, maxY = 1\<rparr>, ds_nodata = Some (Num 7),
           ds_samples = (\<lambda>w. [[Num 1000]]), ds_transform = (\<lambda>w. ())\<rparr>
          \<lparr>minX = 0, minY = 0, maxX = 1, maxY = 1\<rparr> (Num (2 * (1/2))) of
       Inl e \<Rightarrow> Inl e
     | Inr (array, affine, nodata) \<Rightarrow>
         zonalStats
           \<lparr>gdf_text = [''ADM2_EN'' \<mapsto> [''Ikeja'']], gdf_numeric = Map.empty,
            gdf_geometry = [\<lambda>t. [((0, 0), 1)]]\<rparr>
           \<lparr>gdf_text = [''psp_name'' \<mapsto> []], gdf_numeric = Map.empty, gdf_geometry = []\<rparr>
           array affine nodata ''sum'' ''ADM2_EN'' ''psp_name'')
     = Inr ([''Ikeja''], [None], [], [])"
  by (simp add: mass_array_map zone_sum_def valid_cells_def covered_values_def is_valid_def
      computeArray_def dataset_window_def dataset_read_def dataset_window_transform_def
      intersects_def clip_def zonalStats_def getNamesStats_def zonal_stats_def features_def
      row_properties_def)

text \<open>
  C8, as the code behaves. For a positive rate \<open>r\<close>, every cell of the mass grid of the
  rate \<open>2 * r\<close> is twice the cell at the rate \<open>r\<close> (not-a-number stays so); if the
  no-data marker is absent, not-a-number, zero or negative, the aggregate of every zone
  is twice as large too (an undefined one stays undefined); and a ranking of doubled
  values is the ranking of the values with every value doubled, the names in their order.
\<close>

theorem rate_doubling:
  assumes "0 < r" and "nodata_not_positive nodata"
  shows "mass_array pop (Num (2 * r)) = map (map (fmul (Num 2))) (mass_array pop (Num r))
    \<and> zone_sum (mass_array pop (Num (2 * r))) nodata cov
        = map_option (fmul (Num 2)) (zone_sum (mass_array pop (Num r)) nodata cov)
    \<and> (\<forall>ranking. sorted_desc (py_dict (zip names stats)) = Inr ranking \<longrightarrow>
          sorted_desc (py_dict (zip names (map (map_option (fmul (Num 2))) stats)))
            = Inr (scale_items ranking)
        \<and> map fst (scale_items ranking) = map fst ranking)"
proof (intro conjI allI impI)
  show g: "mass_array pop (Num (2 * r)) = map (map (fmul (Num 2))) (mass_array pop (Num r))"
    by (rule mass_array_double)
  have nd: "case nodata of Some (Num n) \<Rightarrow> n \<le> 0 | _ \<Rightarrow> True"
    using assms(2) by (cases nodata rule: nodata_not_positive.cases) simp_all
  have nn: "\<forall>row\<in>set (mass_array pop (Num r)). \<forall>c\<in>set row. c = NaN \<or> (\<exists>m. c = Num m \<and> 0 \<le> m)"
    using mass_array_nonneg [OF assms(1)] by blast
  show "zone_sum (mass_array pop (Num (2 * r))) nodata cov
        = map_option (fmul (Num 2)) (zone_sum (mass_array pop (Num r)) nodata cov)"
    unfolding g by (rule zone_sum_double [OF nd nn])
next
  fix ranking assume "sorted_desc (py_dict (zip names stats)) = Inr ranking"
  then show "sorted_desc (py_dict (zip names (map (map_option (fmul (Num 2))) stats)))
            = Inr (scale_items ranking)"
    by (simp add: zip_double py_dict_double sorted_desc_double)
next
  fix ranking
  show "map fst (scale_items ranking) = map fst ranking"
    by (simp add: scale_items_def comp_def case_prod_beta)
qed

theorem rate_doubling_witness:
  "zone_sum (mass_array [[Num 1000, Num (- 99999)], [Num 200, NaN]] (Num (2 * (1/2))))
      (Some (Num (- 99999))) [((0, 0), 1), ((0, 1), 1), ((1, 0), 1/2)]
     = map_option (fmul (Num 2))
        (zone_sum (mass_array [[Num 1000, Num (- 99999)], [Num 200, NaN]] (Num (1/2)))
          (Some (Num (- 99999))) [((0, 0), 1), ((0, 1), 1), ((1, 0), 1/2)])
 \<and> zone_sum (mass_array [[Num 1000, Num (- 99999)], [Num 200, NaN]] (Num (1/2)))
      (Some (Num (- 99999))) [((0, 0), 1), ((0, 1), 1), ((1, 0), 1/2)] = Some (Num (77/20))
 \<and> sorted_desc (py_dict (zip [''A'', ''B''] (map (map_option (fmul (Num 2))) [Some (Num 3), Some (Num 5)])))
     = Inr [(''B'', Some (Num 10)), (''A'', Some (Num 6))]"
proof -
  have h1: "(0::real) < 1/2" by simp
  have h2: "nodata_not_positive (Some (Num (- 99999)))" by simp
  have r: "sorted_desc (py_dict (zip [''A'', ''B''] [Some (Num 3), Some (Num 5)]))
      = Inr [(''B'', Some (Num 5)), (''A'', Some (Num 3))]"
    by (simp add: py_dict_def sorted_desc_def)
  note t = rate_doubling [OF h1 h2, of "[[Num 1000, Num (- 99999)], [Num 200, NaN]]"
      "[((0, 0), 1), ((0, 1), 1), ((1, 0), 1/2)]" "[''A'', ''B'']" "[Some (Num 3), Some (Num 5)]"]
  have a: "zone_sum (mass_array [[Num 1000, Num (- 99999)], [Num 200, NaN]] (Num (2 * (1/2))))
      (Some (Num (- 99999))) [((0, 0), 1), ((0, 1), 1), ((1, 0), 1/2)]
     = map_option (fmul (Num 2))
        (zone_sum (mass_array [[Num 1000, Num (- 99999)], [Num 200, NaN]] (Num (1/2)))
          (Some (Num (- 99999))) [((0, 0), 1), ((0, 1), 1), ((1, 0), 1/2)])"
    using t by blast
  have b: "sorted_desc (py_dict (zip [''A'', ''B''] (map (map_option (fmul (Num 2))) [Some (Num 3), Some (Num 5)])))
     = Inr (scale_items [(''B'', Some (Num 5)), (''A'', Some (Num 3))])"
    using t r by blast
  have c: "zone_sum (mass_array [[Num 1000, Num (- 99999)], [Num 200, NaN]] (Num (1/2)))
      (Some (Num (- 99999))) [((0, 0), 1), ((0, 1), 1), ((1, 0), 1/2)] = Some (Num (77/20))"
    by (simp add: mass_array_map zone_sum_def valid_cells_def covered_values_def is_valid_def)
  show ?thesis using a b c by (simp add: scale_items_def)
qed

section \<open>The whole computation on examples\<close>

text \<open>
  A service area whose polygon lies outside the window that was read has the statistic
  \<^verbatim>\<open>None\<close>, and the run ends in \<^verbatim>\<open>TypeError\<close>.
\<close>

lemma main_stats_zone_outside_window:
  "main_stats
     \<lparr>ds_extent = \<lparr>minX = 0, minY = 0, maxX = 1, maxY = 1\<rparr>, ds_nodata = Some (Num (- 99999)),
      ds_samples = (\<lambda>w. [[Num 1000]]), ds_transform = (\<lambda>w. ())\<rparr>
     \<lparr>gdf_text = [''ADM2_EN'' \<mapsto> [''Ikeja'']], gdf_numeric = Map.empty,
      gdf_geometry = [\<lambda>t. [((0, 0), 1)]]\<rparr>
     \<lparr>minX = 0, minY = 0, maxX = 1, maxY = 1\<rparr>
     \<lparr>gdf_text = [''psp_name'' \<mapsto> [''P'', ''Q'']],
      gdf_numeric = [''total_coll'' \<mapsto> [Num 1, Num 2]],
      gdf_geometry = [\<lambda>t. [((0, 0), 1)], \<lambda>t. [((3, 3), 1)]]\<rparr>
     (Num (1/2))
   = Inl TypeError"
  by (simp add: main_stats_def computeArray_def dataset_window_def dataset_read_def
      dataset_window_transform_def intersects_def clip_def mass_array_map
      zonalStats_def getNamesStats_def zonal_stats_def features_def row_properties_def
      zone_sum_def valid_cells_def covered_values_def is_valid_def processStats_def)

text \<open>
  Two municipalities of 1000 and 3000 persons at 0.5 kg per person and day generate 3.5
  and 10.5 tonnes a week; a service area over both that reports 20 tonnes has the
  deficit - 6.
\<close>

lemma main_stats_example:
  "main_stats
     \<lparr>ds_extent = \<lparr>minX = 0, minY = 0, maxX = 1, maxY = 1\<rparr>, ds_nodata = Some (Num (- 99999)),
      ds_samples = (\<lambda>w. [[Num 1000, Num 3000]]), ds_transform = (\<lambda>w. ())\<rparr>
     \<lparr>gdf_text = [''ADM2_EN'' \<mapsto> [''Ikeja'', ''Epe'']], gdf_numeric = Map.empty,
      gdf_geometry = [\<lambda>t. [((0, 0), 1)], \<lambda>t. [((0, 1), 1)]]\<rparr>
     \<lparr>minX = 0, minY = 0, maxX = 1, maxY = 1\<rparr>
     \<lparr>gdf_text = [''psp_name'' \<mapsto> [''P'']],
      gdf_numeric = [''total_coll'' \<mapsto> [Num 20]],
      gdf_geometry = [\<lambda>t. [((0, 0), 1), ((0, 1), 1)]]\<rparr>
     (Num (1/2))
   = Inr ([(''Epe'', Some (Num (21/2))), (''Ikeja'', Some (Num (7/2)))], [(''P'', Some (Num (- 6)))])"
  by (simp add: main_stats_def computeArray_def dataset_window_def dataset_read_def
      dataset_window_transform_def intersects_def clip_def mass_array_map
      zonalStats_def getNamesStats_def zonal_stats_def features_def row_properties_def
      zone_sum_def valid_cells_def covered_values_def is_valid_def processStats_def
      py_dict_def sorted_desc_def)

text \<open>
  With a box outside the raster the grid is empty, every statistic is \<^verbatim>\<open>None\<close>, and
  the run ends in \<^verbatim>\<open>TypeError\<close> at the subtraction.
\<close>

lemma main_stats_box_outside_raster:
  "main_stats
     \<lparr>ds_extent = \<lparr>minX = 0, minY = 0, maxX = 1, maxY = 1\<rparr>, ds_nodata = Some (Num (- 99999)),
      ds_samples = (\<lambda>w. [[Num 1000]]), ds_transform = (\<lambda>w. ())\<rparr>
     \<lparr>gdf_text = [''ADM2_EN'' \<mapsto> [''Ikeja'']], gdf_numeric = Map.empty,
      gdf_geometry = [\<lambda>t. [((0, 0), 1)]]\<rparr>
     \<lparr>minX = 5, minY = 5, maxX = 6, maxY = 6\<rparr>
     \<lparr>gdf_text = [''psp_name'' \<mapsto> [''P'']],
      gdf_numeric = [''total_coll'' \<mapsto> [Num 1]],
      gdf_geometry = [\<lambda>t. [((0, 0), 1)]]\<rparr>
     (Num (1/2))
   = Inl TypeError"
  by (simp add: main_stats_def computeArray_def dataset_window_def dataset_read_def
      dataset_window_transform_def intersects_def mass_array_empty
      zonalStats_def getNamesStats_def zonal_stats_def features_def row_properties_def
      zone_sum_def valid_cells_def covered_values_def processStats_def)

end
